theory Spec2Isabelle
  imports Main
begin

section \<open>The runtime: errors, property lists, array indices\<close>

text \<open>
  The helpers of \<^verbatim>\<open>src/utilities/index.ts\<close> are embedded as HOL functions. Every
  exception the code can raise is a value: a function that may throw returns
  \<open>js_error + 'a\<close>, with \<open>Inl\<close> for the exception. The file is an ECMAScript module,
  so it runs in strict mode: setting a property on a primitive string raises
  \<open>TypeError\<close>.

  \<open>Unmodelled\<close> marks the border of the embedding. In the output tree the embedding
  reads and writes own properties only. A property name that the runtime resolves on
  an array, a string, a file or a plain object without any assignment by the code
  (\<^verbatim>\<open>__proto__\<close>, \<^verbatim>\<open>constructor\<close>, \<^verbatim>\<open>length\<close>, \<^verbatim>\<open>push\<close>, \<^verbatim>\<open>map\<close>, \<^verbatim>\<open>link\<close>, \<^verbatim>\<open>name\<close>, ...) is
  not given a meaning: an entry whose key has such a segment returns
  \<open>Inl Unmodelled\<close>, and no statement is made about it.
\<close>

datatype js_error =
    TypeError
  | RangeError
  | SyntaxError
  | Error string
  | Unmodelled

type_synonym 'v props = "(string \<times> 'v) list"

definition is_digit :: "char \<Rightarrow> bool" where
  "is_digit c \<longleftrightarrow> c \<in> set ''0123456789''"

text \<open>The regular expression \<^verbatim>\<open>/^\d+$/\<close>: one or more ASCII digits and nothing else.\<close>

definition all_digits :: "string \<Rightarrow> bool" where
  "all_digits s \<longleftrightarrow> s \<noteq> [] \<and> list_all is_digit s"

definition digit_val :: "char \<Rightarrow> nat" where
  "digit_val c = of_char c - 48"

definition nat_of_digits :: "string \<Rightarrow> nat" where
  "nat_of_digits s = foldl (\<lambda>n c. 10 * n + digit_val c) 0 s"

text \<open>
  An array index in the sense of ECMAScript: the canonical decimal spelling (no
  leading zero) of an integer below \<open>2^32 - 1\<close>. Only such a key addresses an element of
  an array, and such keys are enumerated first, in ascending order.
\<close>

definition array_index :: "string \<Rightarrow> nat option" where
  "array_index s =
     (if all_digits s \<and> (s = ''0'' \<or> hd s \<noteq> CHR ''0'') \<and> nat_of_digits s < 4294967295
      then Some (nat_of_digits s) else None)"

text \<open>
  The own enumerable properties of an object are an association list in the order in
  which the runtime enumerates them: array indices ascending, then the other keys in
  the order of their creation. \<open>put\<close> is the assignment \<^verbatim>\<open>o[k] = v\<close> on that list.
\<close>

fun insert_index :: "nat \<Rightarrow> string \<Rightarrow> 'v \<Rightarrow> 'v props \<Rightarrow> 'v props" where
  "insert_index n k v [] = [(k, v)]"
| "insert_index n k v ((k', v') # ps) =
     (case array_index k' of
        Some m \<Rightarrow> if m < n then (k', v') # insert_index n k v ps else (k, v) # (k', v') # ps
      | None \<Rightarrow> (k, v) # (k', v') # ps)"

fun replace_prop :: "string \<Rightarrow> 'v \<Rightarrow> 'v props \<Rightarrow> 'v props" where
  "replace_prop k v [] = []"
| "replace_prop k v ((k', v') # ps) =
     (if k' = k then (k, v) # ps else (k', v') # replace_prop k v ps)"

definition put :: "string \<Rightarrow> 'v \<Rightarrow> 'v props \<Rightarrow> 'v props" where
  "put k v ps =
     (if k \<in> fst ` set ps then replace_prop k v ps
      else case array_index k of
             Some n \<Rightarrow> insert_index n k v ps
           | None \<Rightarrow> ps @ [(k, v)])"

section \<open>The form-data flattener\<close>

subsection \<open>Keys\<close>

text \<open>\<^verbatim>\<open>key.split(".")\<close>: the segments between the dots; never an empty list.\<close>

fun split_dot :: "string \<Rightarrow> string list" where
  "split_dot [] = [[]]"
| "split_dot (c # cs) =
     (if c = CHR ''.'' then [] # split_dot cs
      else (case split_dot cs of p # ps \<Rightarrow> (c # p) # ps | [] \<Rightarrow> [[c]]))"

text \<open>
  \<^verbatim>\<open>/\[\d*\]$|\[\]$/\<close>: the segment ends with an opening bracket, any number of digits and
  a closing bracket. \<open>strip_bracket\<close> is \<^verbatim>\<open>lastKeyPart.replace(...)\<close> with the empty
  string where the expression matches (the match is unique, since it is anchored at
  the end and its digits contain no bracket), and \<open>None\<close> where it does not.
\<close>

definition strip_bracket :: "string \<Rightarrow> string option" where
  "strip_bracket s =
     (case rev s of
        [] \<Rightarrow> None
      | c # r \<Rightarrow>
          if c = CHR '']'' then
            (case dropWhile is_digit r of
               [] \<Rightarrow> None
             | d # f \<Rightarrow> if d = CHR ''['' then Some (rev f) else None)
          else None)"

definition lastKeyPartIsArray :: "string \<Rightarrow> bool" where
  "lastKeyPartIsArray s \<longleftrightarrow> strip_bracket s \<noteq> None"

subsection \<open>Values\<close>

text \<open>
  A value of a \<^verbatim>\<open>FormData\<close> entry is a string or a \<^verbatim>\<open>File\<close>; a file is an opaque
  object, named here by a number.
\<close>

datatype entry_value = TextValue string | FileValue nat

text \<open>
  The output tree. \<open>Obj\<close> is a plain object. \<open>Arr es ps\<close> is an array with elements
  \<open>es\<close> (\<open>None\<close> is a hole) and named properties \<open>ps\<close>, which an array can carry like
  any object. \<open>File f ps\<close> is the file \<open>f\<close> with the properties the flattener has set on
  it. The flattener creates every container itself and stores it in one place, and
  the files of an entry set are taken to be distinct objects, so no two paths of the
  tree share a mutable object and the in-place updates of the code are updates of a
  tree.
\<close>

datatype fval =
    Text string
  | File nat "(string \<times> fval) list"
  | Obj "(string \<times> fval) list"
  | Arr "fval option list" "(string \<times> fval) list"

fun of_entry_value :: "entry_value \<Rightarrow> fval" where
  "of_entry_value (TextValue s) = Text s"
| "of_entry_value (FileValue f) = File f []"

text \<open>Truthiness: of these values only the empty string is falsy.\<close>

fun truthy :: "fval \<Rightarrow> bool" where
  "truthy (Text s) \<longleftrightarrow> s \<noteq> []"
| "truthy _ \<longleftrightarrow> True"

text \<open>
  \<^verbatim>\<open>c[k]\<close>, read, for a name \<open>k\<close> that the runtime does not define on \<open>c\<close> or its
  prototypes (the names are listed below, and \<open>put_entry\<close> admits no other use): the
  own property, \<open>None\<close> for \<^verbatim>\<open>undefined\<close>. A string has its characters as own properties.
\<close>

fun get_prop :: "fval \<Rightarrow> string \<Rightarrow> fval option" where
  "get_prop (Obj ps) k = map_of ps k"
| "get_prop (File f ps) k = map_of ps k"
| "get_prop (Arr es ps) k =
     (case array_index k of
        Some i \<Rightarrow> if i < length es then es ! i else None
      | None \<Rightarrow> map_of ps k)"
| "get_prop (Text s) k =
     (case array_index k of
        Some i \<Rightarrow> if i < length s then Some (Text [s ! i]) else None
      | None \<Rightarrow> None)"


definition set_index :: "fval option list \<Rightarrow> nat \<Rightarrow> fval \<Rightarrow> fval option list" where
  "set_index es i v =
     (if i < length es then es[i := Some v]
      else es @ replicate (i - length es) None @ [Some v])"

text \<open>
  \<^verbatim>\<open>c[k] = v\<close>, written, for such a name: an own property is created or replaced. An
  array grows to hold an index beyond its length. A string is a primitive, and the
  assignment raises \<^verbatim>\<open>TypeError\<close> in strict mode.
\<close>

fun set_prop :: "fval \<Rightarrow> string \<Rightarrow> fval \<Rightarrow> js_error + fval" where
  "set_prop (Obj ps) k v = Inr (Obj (put k v ps))"
| "set_prop (File f ps) k v = Inr (File f (put k v ps))"
| "set_prop (Arr es ps) k v =
     (case array_index k of
        Some i \<Rightarrow> Inr (Arr (set_index es i v) ps)
      | None \<Rightarrow> Inr (Arr es (put k v ps)))"
| "set_prop (Text s) k v = Inl TypeError"

text \<open>
  \<^verbatim>\<open>c.push(v)\<close>, in a tree where no own property is named \<^verbatim>\<open>push\<close> (\<open>put_entry\<close> creates
  none, see \<open>generateFormData_names\<close>). Then only an array has the method, and on
  anything else the call is a call of \<^verbatim>\<open>undefined\<close>. An array of \<open>2^32 - 1\<close> elements
  cannot grow.
\<close>

fun push :: "fval \<Rightarrow> fval \<Rightarrow> js_error + fval" where
  "push (Arr es ps) v =
     (if length es < 4294967295 then Inr (Arr (es @ [Some v]) ps) else Inl RangeError)"
| "push _ v = Inl TypeError"

subsection \<open>One entry\<close>

text \<open>
  \<open>ensure c k fresh\<close> is \<^verbatim>\<open>if (!c[k]) { c[k] = fresh }\<close> followed by the read of
  \<^verbatim>\<open>c[k]\<close>: it returns the container after the statement and the value then found
  under \<open>k\<close>.
\<close>

definition ensure :: "fval \<Rightarrow> string \<Rightarrow> fval \<Rightarrow> js_error + (fval \<times> fval)" where
  "ensure c k fresh =
     (case get_prop c k of
        None \<Rightarrow> map_sum id (\<lambda>c'. (c', fresh)) (set_prop c k fresh)
      | Some v \<Rightarrow>
          if truthy v then Inr (c, v)
          else map_sum id (\<lambda>c'. (c', fresh)) (set_prop c k fresh))"

text \<open>
  \<open>store c k r\<close> puts the updated child back under \<open>k\<close>: the code updates the child in
  place, through the reference it read from \<open>c[k]\<close>.
\<close>

definition store :: "fval \<Rightarrow> string \<Rightarrow> js_error + fval \<Rightarrow> js_error + fval" where
  "store c k r = (case r of Inl e \<Rightarrow> Inl e | Inr child \<Rightarrow> set_prop c k child)"

text \<open>
  The statements after the inner loop, on the container the walk has reached. The
  code tests \<^verbatim>\<open>lastKeyPartIsArray\<close> twice; here the result of the replacement says
  whether the test succeeded.
\<close>

definition put_last :: "fval \<Rightarrow> string \<Rightarrow> fval \<Rightarrow> js_error + fval" where
  "put_last c lastKeyPart v =
     (case strip_bracket lastKeyPart of
        Some key \<Rightarrow>
          (case ensure c key (Arr [] []) of
             Inl e \<Rightarrow> Inl e
           | Inr (c', target) \<Rightarrow> store c' key (push target v))
      | None \<Rightarrow>
          if all_digits lastKeyPart then push c v
          else set_prop c lastKeyPart v)"

text \<open>
  The inner loop over \<open>keyParts\<close>, as a descent: at a segment that is not the last,
  the container under it is created if nothing truthy is there, an array if the next
  segment is a number and an object otherwise, and the rest of the key is applied to
  what is found there. The first equation is never used: a key has at least one
  segment.
\<close>

definition new_container :: "string \<Rightarrow> fval" where
  "new_container next = (if all_digits next then Arr [] [] else Obj [])"

fun put_path :: "fval \<Rightarrow> string list \<Rightarrow> fval \<Rightarrow> js_error + fval" where
  "put_path c [] v = Inr c"
| "put_path c [lastKeyPart] v = put_last c lastKeyPart v"
| "put_path c (keyPart # next # rest) v =
     (case ensure c keyPart (new_container next) of
        Inl e \<Rightarrow> Inl e
      | Inr (c', child) \<Rightarrow> store c' keyPart (put_path child (next # rest) v))"

text \<open>
  The property names an entry reads or writes: its segments, the last one without its
  bracket suffix.
\<close>

definition key_names :: "string \<Rightarrow> string list" where
  "key_names key =
     (let keyParts = split_dot key in
      butlast keyParts @
        [case strip_bracket (last keyParts) of Some k \<Rightarrow> k | None \<Rightarrow> last keyParts])"

subsection \<open>What the runtime defines\<close>

text \<open>
  \<open>get_prop\<close>, \<open>set_prop\<close> and \<open>push\<close> give \<^verbatim>\<open>c[k]\<close>, \<^verbatim>\<open>c[k] = v\<close> and \<^verbatim>\<open>c.push(v)\<close> their
  meaning for own properties. The runtime gives some names a meaning of its own: on
  every object the members of \<^verbatim>\<open>Object.prototype\<close>; on an array those of
  \<^verbatim>\<open>Array.prototype\<close> and the property \<^verbatim>\<open>length\<close>, whose assignment resizes the array; on
  a string those of \<^verbatim>\<open>String.prototype\<close> and \<^verbatim>\<open>length\<close>; on a file the accessors and
  methods of \<^verbatim>\<open>File.prototype\<close> and \<^verbatim>\<open>Blob.prototype\<close>, whose assignment raises
  \<^verbatim>\<open>TypeError\<close>. A read of such a name finds a function, a number or a prototype object,
  and an own property \<^verbatim>\<open>push\<close> of an array would hide the method. The lists below are
  these names, after ECMAScript (with its annex on legacy features) and the File API;
  the string-keyed ones are all of them, since a segment of a key is a string.
\<close>

definition object_members :: "string list" where
  "object_members =
     [''__proto__'', ''constructor'', ''hasOwnProperty'', ''isPrototypeOf'',
      ''propertyIsEnumerable'', ''toLocaleString'', ''toString'', ''valueOf'',
      ''__defineGetter__'', ''__defineSetter__'', ''__lookupGetter__'', ''__lookupSetter__'']"

definition array_members :: "string list" where
  "array_members =
     [''length'', ''at'', ''concat'', ''copyWithin'', ''entries'', ''every'', ''fill'',
      ''filter'', ''find'', ''findIndex'', ''findLast'', ''findLastIndex'', ''flat'',
      ''flatMap'', ''forEach'', ''includes'', ''indexOf'', ''join'', ''keys'',
      ''lastIndexOf'', ''map'', ''pop'', ''push'', ''reduce'', ''reduceRight'', ''reverse'',
      ''shift'', ''slice'', ''some'', ''sort'', ''splice'', ''toReversed'', ''toSorted'',
      ''toSpliced'', ''unshift'', ''values'', ''with'']"

definition string_members :: "string list" where
  "string_members =
     [''anchor'', ''big'', ''blink'', ''bold'', ''charAt'', ''charCodeAt'', ''codePointAt'',
      ''endsWith'', ''fixed'', ''fontcolor'', ''fontsize'', ''isWellFormed'', ''italics'',
      ''link'', ''localeCompare'', ''match'', ''matchAll'', ''normalize'', ''padEnd'',
      ''padStart'', ''repeat'', ''replace'', ''replaceAll'', ''search'', ''small'', ''split'',
      ''startsWith'', ''strike'', ''sub'', ''substr'', ''substring'', ''sup'',
      ''toLocaleLowerCase'', ''toLocaleUpperCase'', ''toLowerCase'', ''toUpperCase'',
      ''toWellFormed'', ''trim'', ''trimEnd'', ''trimLeft'', ''trimRight'', ''trimStart'']"

definition file_members :: "string list" where
  "file_members =
     [''name'', ''lastModified'', ''lastModifiedDate'', ''webkitRelativePath'', ''size'',
      ''type'', ''arrayBuffer'', ''bytes'', ''stream'', ''text'']"

definition prototype_members :: "string list" where
  "prototype_members = object_members @ array_members @ string_members @ file_members"

text \<open>
  An entry is inside the embedding if none of the names it reads or writes is one of
  these, nor one of \<open>inherited\<close>: the further names, if any, that the runtime at hand
  defines on these objects. For such an entry every read of the code finds what an
  earlier assignment of the code has put there, or nothing, and every \<^verbatim>\<open>push\<close> is the
  method of arrays.
\<close>

definition in_model :: "string list \<Rightarrow> string \<Rightarrow> bool" where
  "in_model inherited key \<longleftrightarrow>
     (\<forall>n \<in> set (key_names key). n \<notin> set prototype_members \<and> n \<notin> set inherited)"

definition put_entry :: "string list \<Rightarrow> fval \<Rightarrow> string \<times> entry_value \<Rightarrow> js_error + fval" where
  "put_entry inherited out e =
     (if in_model inherited (fst e)
      then put_path out (split_dot (fst e)) (of_entry_value (snd e))
      else Inl Unmodelled)"

subsection \<open>generateFormData\<close>

text \<open>
  The outer loop over \<^verbatim>\<open>formData.entries()\<close>. It stops at the first entry that raises
  an exception or is outside the embedding.
\<close>

fun entries_loop :: "string list \<Rightarrow> fval \<Rightarrow> (string \<times> entry_value) list \<Rightarrow> js_error + fval" where
  "entries_loop inherited out [] = Inr out"
| "entries_loop inherited out (e # es) =
     (case put_entry inherited out e of
        Inl err \<Rightarrow> Inl err
      | Inr out' \<Rightarrow> entries_loop inherited out' es)"

definition generateFormData :: "string list \<Rightarrow> (string \<times> entry_value) list \<Rightarrow> js_error + fval" where
  "generateFormData inherited entries = entries_loop inherited (Obj []) entries"

section \<open>The request data extractor and the validation orchestrator\<close>

text \<open>
  Of a request the helpers use the method (the field \<open>http_method\<close>), the URL and the
  result of \<^verbatim>\<open>await request.formData()\<close>, which is the entry list of the body or a
  rejection.
\<close>

record request =
  http_method :: string
  url :: string
  formData :: "js_error + (string \<times> entry_value) list"

definition isGet :: "request \<Rightarrow> bool" where
  "isGet request \<longleftrightarrow> http_method request = ''GET'' \<or> http_method request = ''get''"

text \<open>\<^verbatim>\<open>formData.get(key)\<close>: the first value under the key, \<open>None\<close> for \<^verbatim>\<open>null\<close>.\<close>

definition form_get :: "(string \<times> entry_value) list \<Rightarrow> string \<Rightarrow> entry_value option" where
  "form_get entries key = map_of entries key"

text \<open>\<^verbatim>\<open>!data\<close>: \<^verbatim>\<open>null\<close> and the empty string are falsy, a file is an object.\<close>

fun falsy_data :: "entry_value option \<Rightarrow> bool" where
  "falsy_data None \<longleftrightarrow> True"
| "falsy_data (Some (TextValue s)) \<longleftrightarrow> s = []"
| "falsy_data (Some (FileValue f)) \<longleftrightarrow> False"

text \<open>
  \<^verbatim>\<open>parseFormData\<close> returns what \<^verbatim>\<open>generateFormData\<close> built or what \<^verbatim>\<open>JSON.parse\<close>
  decoded. \<^verbatim>\<open>JSON.parse\<close> and \<^verbatim>\<open>JSON.stringify\<close> belong to the runtime and are
  parameters; \<open>'j\<close> is the type of the values they decode and encode.
\<close>

datatype 'j parsed = Flattened fval | Decoded 'j

definition default_key :: string where
  "default_key = ''formData''"

definition parseFormData ::
  "(string \<Rightarrow> js_error + 'j) \<Rightarrow> string list \<Rightarrow> request \<Rightarrow> string \<Rightarrow> js_error + 'j parsed" where
  "parseFormData json_parse inherited request key =
     (case formData request of
        Inl e \<Rightarrow> Inl e
      | Inr entries \<Rightarrow>
          (let data = form_get entries key in
           if falsy_data data then map_sum id Flattened (generateFormData inherited entries)
           else case data of
                  Some (TextValue s) \<Rightarrow> map_sum id Decoded (json_parse s)
                | _ \<Rightarrow> Inl (Error ''Data is not a string'')))"

text \<open>
  \<^verbatim>\<open>createFormData\<close>: a new, empty \<^verbatim>\<open>FormData\<close> to which the one entry is appended. The
  data is of a type that \<^verbatim>\<open>JSON.stringify\<close> turns into a string.
\<close>

definition createFormData :: "('j \<Rightarrow> string) \<Rightarrow> 'j \<Rightarrow> string \<Rightarrow> (string \<times> entry_value) list" where
  "createFormData json_stringify data key = [] @ [(key, TextValue (json_stringify data))]"

text \<open>
  The resolver is the caller's function. It is called with the data, an empty context
  and the two options (\<open>resolver_fields\<close> is the option \<^verbatim>\<open>fields\<close>), and resolves to the
  pair \<^verbatim>\<open>{errors, values}\<close> or rejects; \<open>errors\<close> is an object, given by its own
  enumerable properties.
\<close>

record resolver_options =
  shouldUseNativeValidation :: bool
  resolver_fields :: "unit props"

record ('e, 'v) validated =
  errors :: "'e props option"
  data :: "'v option"

definition validateFormData ::
  "'d \<Rightarrow> ('d \<Rightarrow> unit props \<Rightarrow> resolver_options \<Rightarrow> js_error + ('e props \<times> 'v))
      \<Rightarrow> js_error + ('e, 'v) validated" where
  "validateFormData d resolver =
     (case resolver d [] \<lparr>shouldUseNativeValidation = False, resolver_fields = []\<rparr> of
        Inl e \<Rightarrow> Inl e
      | Inr (errs, values) \<Rightarrow>
          if length (map fst errs) > 0 then Inr \<lparr>errors = Some errs, data = None\<rparr>
          else Inr \<lparr>errors = None, data = Some values\<rparr>)"

section \<open>The error merger\<close>

subsection \<open>Values\<close>

text \<open>
  The backend errors are \<^verbatim>\<open>unknown\<close> to the code: any value the action returned. An
  object is its list of own enumerable properties in enumeration order; an array is
  dense, as one decoded from JSON is. Of a number the code only tests whether it is
  zero, so an integer stands for it (\<^verbatim>\<open>NaN\<close>, functions, symbols and big integers are
  left out).
\<close>

datatype jsval =
    JUndefined
  | JNull
  | JBool bool
  | JNum int
  | JStr string
  | JArr "jsval list"
  | JObj "(string \<times> jsval) list"

fun js_truthy :: "jsval \<Rightarrow> bool" where
  "js_truthy JUndefined \<longleftrightarrow> False"
| "js_truthy JNull \<longleftrightarrow> False"
| "js_truthy (JBool b) \<longleftrightarrow> b"
| "js_truthy (JNum n) \<longleftrightarrow> n \<noteq> 0"
| "js_truthy (JStr s) \<longleftrightarrow> s \<noteq> []"
| "js_truthy (JArr vs) \<longleftrightarrow> True"
| "js_truthy (JObj ps) \<longleftrightarrow> True"

text \<open>
  The decimal spelling of an index, as \<^verbatim>\<open>Object.entries\<close> gives the keys of an array or
  a string; \<open>digit_char\<close> is only applied to numbers below ten.
\<close>

definition digit_char :: "nat \<Rightarrow> char" where
  "digit_char n = ''0123456789'' ! n"

function show_nat :: "nat \<Rightarrow> string" where
  "show_nat n = (if n < 10 then [digit_char n] else show_nat (n div 10) @ [digit_char (n mod 10)])"
  by pat_completeness auto
termination
  by (relation "measure id") auto

declare show_nat.simps [simp del]

definition indexed :: "'a list \<Rightarrow> (string \<times> 'a) list" where
  "indexed xs = zip (map show_nat [0..<length xs]) xs"

text \<open>
  The own enumerable string-keyed properties of a value: what \<^verbatim>\<open>Object.entries\<close>
  enumerates and what an object spread copies. A string has its characters, a number
  or a boolean has none.
\<close>

fun own_props :: "jsval \<Rightarrow> jsval props" where
  "own_props (JObj ps) = ps"
| "own_props (JArr vs) = indexed vs"
| "own_props (JStr s) = indexed (map (\<lambda>c. JStr [c]) s)"
| "own_props _ = []"

text \<open>
  \<open>get_field v k\<close> is the read \<^verbatim>\<open>v[k]\<close> for the names \<^verbatim>\<open>serverError\<close> and \<^verbatim>\<open>random\<close>, which
  no array or string has: it throws on \<^verbatim>\<open>null\<close> and \<^verbatim>\<open>undefined\<close>. \<open>message_of v\<close> is
  \<^verbatim>\<open>v?.message\<close>, which does not throw.
\<close>

definition own_field :: "jsval props \<Rightarrow> string \<Rightarrow> jsval" where
  "own_field ps k = (case map_of ps k of Some v \<Rightarrow> v | None \<Rightarrow> JUndefined)"

fun get_field :: "jsval \<Rightarrow> string \<Rightarrow> js_error + jsval" where
  "get_field JUndefined k = Inl TypeError"
| "get_field JNull k = Inl TypeError"
| "get_field (JObj ps) k = Inr (own_field ps k)"
| "get_field _ k = Inr JUndefined"

fun message_of :: "jsval \<Rightarrow> jsval" where
  "message_of (JObj ps) = own_field ps ''message''"
| "message_of _ = JUndefined"

text \<open>\<^verbatim>\<open>typeof v === "object"\<close>, true of \<^verbatim>\<open>null\<close> as well, and \<^verbatim>\<open>Array.isArray(v)\<close>.\<close>

fun typeof_object :: "jsval \<Rightarrow> bool" where
  "typeof_object JNull \<longleftrightarrow> True"
| "typeof_object (JArr vs) \<longleftrightarrow> True"
| "typeof_object (JObj ps) \<longleftrightarrow> True"
| "typeof_object _ \<longleftrightarrow> False"

fun isArray :: "jsval \<Rightarrow> bool" where
  "isArray (JArr vs) \<longleftrightarrow> True"
| "isArray _ \<longleftrightarrow> False"

text \<open>
  The object literal \<^verbatim>\<open>{first, ...v}\<close>: the properties written first, then each own
  property of \<open>v\<close> assigned in turn, so that a property of \<open>v\<close> replaces one of the same
  name written before it.
\<close>

definition spread :: "jsval props \<Rightarrow> jsval \<Rightarrow> jsval props" where
  "spread first v = foldl (\<lambda>acc (k, x). put k x acc) first (own_props v)"

subsection \<open>parseRightValue\<close>

text \<open>
  Under the key \<^verbatim>\<open>root\<close> the two tests run one after the other and each assigns to
  \<^verbatim>\<open>value\<close>; the second assignment, when it happens, replaces the first.
\<close>

definition parseRightValue :: "string \<Rightarrow> jsval \<Rightarrow> js_error + jsval" where
  "parseRightValue key rightValue =
     (if key = ''root'' then
        (case get_field rightValue ''serverError'' of
           Inl e \<Rightarrow> Inl e
         | Inr serverError \<Rightarrow>
             (let v = (if js_truthy serverError
                       then JObj [(''root.serverError'', JObj (spread [(''type'', JStr ''400'')] serverError))]
                       else rightValue)
              in case get_field rightValue ''random'' of
                   Inl e \<Rightarrow> Inl e
                 | Inr random \<Rightarrow>
                     Inr (if js_truthy random
                          then JObj [(''root.random'', JObj (spread [(''type'', JStr ''random'')] random))]
                          else v)))
      else Inr rightValue)"

subsection \<open>mergeErrors\<close>

text \<open>
  \<^verbatim>\<open>frontendErrors[key] = v\<close>. The frontend tree is a plain object, given by its own
  properties. An assignment to \<^verbatim>\<open>__proto__\<close> would set the prototype of the tree instead
  of a property; it is outside the embedding.
\<close>

definition assign :: "jsval props \<Rightarrow> string \<Rightarrow> jsval \<Rightarrow> js_error + jsval props" where
  "assign fe key v = (if key = ''__proto__'' then Inl Unmodelled else Inr (put key v fe))"

text \<open>
  The measure for the termination of \<^verbatim>\<open>mergeErrors\<close>: the nesting depth of a tree, where
  an entry under the key \<^verbatim>\<open>root\<close> counts one level more, since the root rule wraps the
  sub-field it keeps in two new objects.
\<close>

definition root_bonus :: "string \<Rightarrow> nat" where
  "root_bonus k = (if k = ''root'' then 1 else 0)"

fun depth :: "jsval \<Rightarrow> nat" where
  "depth (JObj ps) = Suc (foldr max (map (\<lambda>(k, v). root_bonus k + depth v) ps) 0)"
| "depth (JArr vs) = Suc (foldr max (map depth vs) 0)"
| "depth JNull = 1"
| "depth _ = 0"

definition depth_props :: "jsval props \<Rightarrow> nat" where
  "depth_props ps = foldr max (map (\<lambda>(k, v). root_bonus k + depth v) ps) 0"

lemma depth_props_simps [simp]:
  "depth_props [] = 0"
  "depth_props ((k, v) # ps) = max (root_bonus k + depth v) (depth_props ps)"
  by (simp_all add: depth_props_def)

lemma depth_JObj [simp]: "depth (JObj ps) = Suc (depth_props ps)"
  by (simp add: depth_props_def)

declare depth.simps(1) [simp del]

lemma depth_props_mem: "(k, v) \<in> set ps \<Longrightarrow> root_bonus k + depth v \<le> depth_props ps"
  by (induction ps) auto

lemma depth_props_map_of: "map_of ps k = Some v \<Longrightarrow> depth v \<le> depth_props ps"
  using depth_props_mem [OF map_of_SomeD, of ps k v] by simp

lemma depth_props_bound:
  "(\<And>k v. (k, v) \<in> set ps \<Longrightarrow> root_bonus k + depth v \<le> b) \<Longrightarrow> depth_props ps \<le> b"
  by (induction ps) auto

lemma set_replace_prop: "set (replace_prop k v ps) \<subseteq> insert (k, v) (set ps)"
  by (induction ps) (auto split: if_splits)

lemma set_insert_index: "set (insert_index n k v ps) = insert (k, v) (set ps)"
  by (induction ps) (auto split: option.splits if_splits)

lemma set_put: "set (put k v ps) \<subseteq> insert (k, v) (set ps)"
  using set_replace_prop [of k v ps]
  by (auto simp: put_def set_insert_index split: option.splits)

lemma depth_props_put: "depth_props (put k v ps) \<le> max (root_bonus k + depth v) (depth_props ps)"
proof (rule depth_props_bound)
  fix k' v' assume "(k', v') \<in> set (put k v ps)"
  then have "(k', v') = (k, v) \<or> (k', v') \<in> set ps"
    using set_put [of k v ps] by auto
  then show "root_bonus k' + depth v' \<le> max (root_bonus k + depth v) (depth_props ps)"
    using depth_props_mem [of k' v' ps] by auto
qed

lemma depth_props_foldl_put:
  "depth_props (foldl (\<lambda>acc (k, x). put k x acc) first qs) \<le> max (depth_props first) (depth_props qs)"
proof (induction qs arbitrary: first)
  case Nil
  then show ?case by simp
next
  case (Cons q qs)
  obtain k x where q: "q = (k, x)" by (cases q)
  have "depth_props (foldl (\<lambda>acc (k, x). put k x acc) (put k x first) qs)
          \<le> max (depth_props (put k x first)) (depth_props qs)"
    by (rule Cons.IH)
  also have "\<dots> \<le> max (max (root_bonus k + depth x) (depth_props first)) (depth_props qs)"
    using depth_props_put [of k x first] by simp
  finally show ?case by (simp add: q max.assoc max.left_commute)
qed

lemma digit_char_not_t: "m < 10 \<Longrightarrow> digit_char m \<noteq> CHR ''t''"
proof -
  assume "m < 10"
  then have "digit_char m \<in> set ''0123456789''"
    unfolding digit_char_def by (intro nth_mem) simp
  then show ?thesis by auto
qed

lemma last_show_nat: "last (show_nat n) = digit_char (n mod 10)"
  by (subst show_nat.simps) simp

lemma show_nat_not_root: "show_nat n \<noteq> ''root''"
proof
  assume "show_nat n = ''root''"
  then have "last (show_nat n) = CHR ''t''" by simp
  then show False using digit_char_not_t [of "n mod 10"] by (simp add: last_show_nat)
qed

lemma depth_nth: "i < length vs \<Longrightarrow> depth (vs ! i) \<le> foldr max (map depth vs) 0"
proof (induction vs arbitrary: i)
  case Nil
  then show ?case by simp
next
  case (Cons a vs)
  then show ?case by (cases i) (auto simp: le_max_iff_disj)
qed

lemma depth_props_indexed:
  "depth_props (indexed vs) \<le> foldr max (map depth vs) 0"
proof (rule depth_props_bound)
  fix k v assume "(k, v) \<in> set (indexed vs)"
  then obtain i where "i < length vs" and k: "k = show_nat i" and v: "v = vs ! i"
    by (auto simp: indexed_def set_zip)
  then show "root_bonus k + depth v \<le> foldr max (map depth vs) 0"
    using show_nat_not_root [of i] depth_nth [of i vs] by (simp add: root_bonus_def)
qed

lemma depth_own_props: "depth_props (own_props x) \<le> depth x"
proof (cases x)
  case (JStr s)
  have "foldr max (map depth (map (\<lambda>c. JStr [c]) s)) 0 = 0"
    by (induction s) auto
  then show ?thesis using depth_props_indexed [of "map (\<lambda>c. JStr [c]) s"] by (simp add: JStr)
next
  case (JArr vs)
  then show ?thesis using depth_props_indexed [of vs] by simp
qed auto

lemma depth_spread:
  "depth_props (spread [(''type'', JStr t)] x) \<le> depth x"
  using depth_props_foldl_put [of "[(''type'', JStr t)]" "own_props x"] depth_own_props [of x]
  by (simp add: spread_def root_bonus_def)

lemma depth_own_field: "depth (own_field ps k) \<le> depth_props ps"
  using depth_props_map_of [of ps k] by (auto simp: own_field_def split: option.splits)

lemma depth_parseRightValue:
  assumes "parseRightValue key rightValue = Inr sub"
    and "typeof_object rightValue" and "\<not> isArray rightValue"
  shows "depth_props (own_props sub) < root_bonus key + depth rightValue"
proof (cases rightValue)
  case JNull
  with assms show ?thesis by (auto simp: parseRightValue_def split: if_splits)
next
  case (JObj ps)
  show ?thesis
  proof (cases "key = ''root''")
    case False
    with assms JObj show ?thesis by (auto simp: parseRightValue_def)
  next
    case True
    have "sub = rightValue
        \<or> (\<exists>k' t k. sub = JObj [(k', JObj (spread [(''type'', JStr t)] (own_field ps k)))]
              \<and> k' \<noteq> ''root'')"
      using assms(1) True JObj by (auto simp: parseRightValue_def Let_def split: if_splits)
    then show ?thesis
    proof
      assume "sub = rightValue"
      then show ?thesis by (simp add: JObj)
    next
      assume "\<exists>k' t k. sub = JObj [(k', JObj (spread [(''type'', JStr t)] (own_field ps k)))]
                \<and> k' \<noteq> ''root''"
      then obtain k' t k
        where sub: "sub = JObj [(k', JObj (spread [(''type'', JStr t)] (own_field ps k)))]"
          and k': "k' \<noteq> ''root''"
        by blast
      show ?thesis
        using depth_spread [of t "own_field ps k"] depth_own_field [of ps k] k'
        by (simp add: sub JObj True root_bonus_def)
    qed
  qed
qed (use assms in auto)

text \<open>
  \<^verbatim>\<open>mergeErrors\<close> and the loop over \<^verbatim>\<open>Object.entries(backendErrors)\<close>. The frontend tree
  is updated in place in the code and passed on here. The callback is a function on
  a state \<open>'s\<close> of the caller; it is taken to return normally and not to touch the
  trees. A recursive call is made without a callback, which is the default no-op.
\<close>

function mergeErrors :: "jsval props \<Rightarrow> jsval \<Rightarrow> ('s \<Rightarrow> 's) \<Rightarrow> 's \<Rightarrow> js_error + (jsval props \<times> 's)"
  and merge_entries :: "jsval props \<Rightarrow> jsval props \<Rightarrow> 's \<Rightarrow> js_error + (jsval props \<times> 's)" where
  "mergeErrors frontendErrors backendErrors onMerge s =
     (if \<not> js_truthy backendErrors then Inr (frontendErrors, s)
      else case merge_entries frontendErrors (own_props backendErrors) s of
             Inl e \<Rightarrow> Inl e
           | Inr (fe, s') \<Rightarrow> Inr (fe, onMerge s'))"
| "merge_entries frontendErrors [] s = Inr (frontendErrors, s)"
| "merge_entries frontendErrors ((key, rightValue) # rest) s =
     (if typeof_object rightValue \<and> \<not> isArray rightValue \<and> \<not> js_truthy (message_of rightValue) then
        (case parseRightValue key rightValue of
           Inl e \<Rightarrow> Inl e
         | Inr sub \<Rightarrow>
             (case mergeErrors frontendErrors sub (\<lambda>u. u) s of
                Inl e \<Rightarrow> Inl e
              | Inr (fe, s') \<Rightarrow> merge_entries fe rest s'))
      else if js_truthy (message_of rightValue) then
        (case assign frontendErrors key (JObj (spread [(''type'', JStr ''custom'')] rightValue)) of
           Inl e \<Rightarrow> Inl e
         | Inr fe \<Rightarrow> merge_entries fe rest s)
      else if (case rightValue of JStr m \<Rightarrow> True | _ \<Rightarrow> False) then
        (case assign frontendErrors key (JObj [(''message'', rightValue), (''type'', JStr ''custom'')]) of
           Inl e \<Rightarrow> Inl e
         | Inr fe \<Rightarrow> merge_entries fe rest s)
      else merge_entries frontendErrors rest s)"
  by pat_completeness auto
termination
proof (relation "measures
    [\<lambda>x. case x of Inl (fe, be, cb, s) \<Rightarrow> depth_props (own_props be) | Inr (fe, es, s) \<Rightarrow> depth_props es,
     \<lambda>x. case x of Inl (fe, be, cb, s) \<Rightarrow> Suc (length (own_props be)) | Inr (fe, es, s) \<Rightarrow> length es]",
    goal_cases)
  case 1
  then show ?case by simp
next
  case (2 frontendErrors backendErrors onMerge s)
  then show ?case by simp
next
  case (3 frontendErrors key rightValue rest s sub)
  then show ?case
    using depth_parseRightValue [of key rightValue sub] by (auto simp: less_max_iff_disj)
next
  case (4 frontendErrors key rightValue rest s sub x y)
  then show ?case by (auto simp: max_def)
next
  case 5
  then show ?case by (auto simp: max_def)
next
  case 6
  then show ?case by (auto simp: max_def)
next
  case 7
  then show ?case by (auto simp: max_def)
qed

declare mergeErrors.simps [simp del] merge_entries.simps(2) [simp del]

section \<open>Properties of the request data extractor and the validation orchestrator\<close>

subsection \<open>Instances for closed examples\<close>

text \<open>
  A request with a form body, and the restriction of \<^verbatim>\<open>JSON.stringify\<close> and
  \<^verbatim>\<open>JSON.parse\<close> to the empty object and the empty array, which is all the closed
  examples below encode and decode.
\<close>

definition post_request :: "(string \<times> entry_value) list \<Rightarrow> request" where
  "post_request entries = \<lparr>http_method = ''POST'', url = ''http://localhost/'', formData = Inr entries\<rparr>"

datatype sample_json = EmptyObject | EmptyArray

fun sample_stringify :: "sample_json \<Rightarrow> string" where
  "sample_stringify EmptyObject = ''{}''"
| "sample_stringify EmptyArray = ''[]''"

definition sample_parse :: "string \<Rightarrow> js_error + sample_json" where
  "sample_parse s =
     (if s = ''{}'' then Inr EmptyObject else if s = ''[]'' then Inr EmptyArray else Inl SyntaxError)"

subsection \<open>isGet\<close>

text \<open>
  The specification's reading of \<^verbatim>\<open>isGet\<close>, for comparison with the code: the method
  is \<^verbatim>\<open>GET\<close> in any capitalization.
\<close>

definition ascii_upper :: "char \<Rightarrow> char" where
  "ascii_upper c =
     (case map_of (zip ''abcdefghijklmnopqrstuvwxyz'' ''ABCDEFGHIJKLMNOPQRSTUVWXYZ'') c of
        Some u \<Rightarrow> u
      | None \<Rightarrow> c)"

definition spec_isGet :: "request \<Rightarrow> bool" where
  "spec_isGet request \<longleftrightarrow> map ascii_upper (http_method request) = ''GET''"

lemma ascii_upper_G: "ascii_upper c = CHR ''G'' \<longleftrightarrow> c = CHR ''G'' \<or> c = CHR ''g''"
  by (auto simp: ascii_upper_def split: if_splits)

lemma ascii_upper_E: "ascii_upper c = CHR ''E'' \<longleftrightarrow> c = CHR ''E'' \<or> c = CHR ''e''"
  by (auto simp: ascii_upper_def split: if_splits)

lemma ascii_upper_T: "ascii_upper c = CHR ''T'' \<longleftrightarrow> c = CHR ''T'' \<or> c = CHR ''t''"
  by (auto simp: ascii_upper_def split: if_splits)

lemma spec_isGet_iff:
  "spec_isGet r \<longleftrightarrow>
     http_method r \<in> set [''GET'', ''GEt'', ''GeT'', ''Get'', ''gET'', ''gEt'', ''geT'', ''get'']"
proof -
  have "map ascii_upper m = ''GET'' \<longleftrightarrow>
      (\<exists>a b c. m = [a, b, c] \<and> ascii_upper a = CHR ''G'' \<and> ascii_upper b = CHR ''E''
         \<and> ascii_upper c = CHR ''T'')" for m
    by (auto simp: map_eq_Cons_conv)
  then show ?thesis
    unfolding spec_isGet_def by (auto simp: ascii_upper_G ascii_upper_E ascii_upper_T)
qed

text \<open>
  C4, as stated, fails: the method \<^verbatim>\<open>Get\<close> is a capitalization of \<^verbatim>\<open>get\<close>, and
  \<^verbatim>\<open>isGet\<close> is false for it.
\<close>

theorem isGet_mixed_case_counterexample:
  "spec_isGet \<lparr>http_method = ''Get'', url = [], formData = Inr []\<rparr>
   \<and> \<not> isGet \<lparr>http_method = ''Get'', url = [], formData = Inr []\<rparr>"
  by (simp add: spec_isGet_def isGet_def ascii_upper_def)

text \<open>
  C4, amended: \<^verbatim>\<open>isGet\<close> is true exactly when the method is the string \<^verbatim>\<open>GET\<close> or the
  string \<^verbatim>\<open>get\<close>. Both are capitalizations of \<^verbatim>\<open>get\<close>; the six mixed capitalizations
  are the requests on which the code and a case-insensitive comparison differ, and
  every other method gives false under both.
\<close>

theorem isGet_exact:
  "(isGet r \<longleftrightarrow> http_method r = ''GET'' \<or> http_method r = ''get'')
   \<and> (isGet r \<longrightarrow> spec_isGet r)
   \<and> (spec_isGet r \<and> \<not> isGet r \<longleftrightarrow>
        http_method r \<in> set [''GEt'', ''GeT'', ''Get'', ''gET'', ''gEt'', ''geT''])"
  by (auto simp: spec_isGet_iff isGet_def)

theorem isGet_exact_witness:
  "isGet \<lparr>http_method = ''get'', url = [], formData = Inr []\<rparr>
   \<and> isGet \<lparr>http_method = ''GET'', url = [], formData = Inr []\<rparr>
   \<and> \<not> isGet \<lparr>http_method = ''POST'', url = [], formData = Inr []\<rparr>
   \<and> \<not> isGet \<lparr>http_method = ''Get'', url = [], formData = Inr []\<rparr>"
  using isGet_exact [of "\<lparr>http_method = ''get'', url = [], formData = Inr []\<rparr>"]
    isGet_exact [of "\<lparr>http_method = ''GET'', url = [], formData = Inr []\<rparr>"]
    isGet_exact [of "\<lparr>http_method = ''POST'', url = [], formData = Inr []\<rparr>"]
    isGet_exact [of "\<lparr>http_method = ''Get'', url = [], formData = Inr []\<rparr>"]
  by simp

subsection \<open>validateFormData\<close>

text \<open>
  C7: whatever the data, when the resolver resolves to \<^verbatim>\<open>{errors, values}\<close>, the result
  is \<^verbatim>\<open>{errors, data: undefined}\<close> if \<open>errors\<close> has at least one key and
  \<^verbatim>\<open>{errors: undefined, data: values}\<close> if it has none.
\<close>

theorem validateFormData_result:
  assumes "resolver d [] \<lparr>shouldUseNativeValidation = False, resolver_fields = []\<rparr> = Inr (errs, values)"
  shows "(errs \<noteq> [] \<longrightarrow> validateFormData d resolver = Inr \<lparr>errors = Some errs, data = None\<rparr>)
       \<and> (errs = [] \<longrightarrow> validateFormData d resolver = Inr \<lparr>errors = None, data = Some values\<rparr>)"
  using assms by (simp add: validateFormData_def)

theorem validateFormData_result_witness:
  "validateFormData (3::nat) (\<lambda>d c opts. Inr ([(''email'', ''Required'')], d))
      = Inr \<lparr>errors = Some [(''email'', ''Required'')], data = None\<rparr>
   \<and> validateFormData (3::nat) (\<lambda>d c opts. Inr ([] :: string props, d))
      = Inr \<lparr>errors = None, data = Some 3\<rparr>"
  using validateFormData_result [of "\<lambda>d c opts. Inr ([(''email'', ''Required'')], d)" "3::nat"
      "[(''email'', ''Required'')]" 3]
    validateFormData_result [of "\<lambda>d c opts. Inr ([] :: string props, d)" "3::nat" "[]" 3]
  by simp

subsection \<open>parseFormData and createFormData\<close>

text \<open>
  C5, as stated, fails: a body whose value under the key is the empty string has a
  value there, a string, yet \<^verbatim>\<open>parseFormData\<close> flattens the entry set instead of
  decoding the value.
\<close>

theorem parseFormData_empty_text_counterexample:
  "form_get [(''formData'', TextValue [])] default_key = Some (TextValue [])
   \<and> parseFormData sample_parse object_members (post_request [(''formData'', TextValue [])]) default_key
       = Inr (Flattened (Obj [(''formData'', Text [])]))"
  by (simp add: parseFormData_def post_request_def form_get_def default_key_def
      generateFormData_def put_entry_def in_model_def key_names_def strip_bracket_def
      prototype_members_def object_members_def array_members_def string_members_def
      file_members_def put_last_def all_digits_def is_digit_def put_def array_index_def)

text \<open>
  C5, amended: \<^verbatim>\<open>parseFormData\<close> flattens the full entry set exactly when there is no
  value under the key or the first value there is the empty string; when the first
  value is a file it throws \<^verbatim>\<open>Error("Data is not a string")\<close>; when it is a non-empty
  string the result is that of \<^verbatim>\<open>JSON.parse\<close> on it, the decoded value or the error
  \<^verbatim>\<open>JSON.parse\<close> raises.
\<close>

theorem parseFormData_cases:
  assumes "formData request = Inr entries"
  shows "(form_get entries key = None \<or> form_get entries key = Some (TextValue []) \<longrightarrow>
            parseFormData json_parse inherited request key
              = map_sum id Flattened (generateFormData inherited entries))
       \<and> (\<forall>s. form_get entries key = Some (TextValue s) \<and> s \<noteq> [] \<longrightarrow>
            parseFormData json_parse inherited request key = map_sum id Decoded (json_parse s))
       \<and> (\<forall>f. form_get entries key = Some (FileValue f) \<longrightarrow>
            parseFormData json_parse inherited request key = Inl (Error ''Data is not a string''))"
  using assms by (auto simp: parseFormData_def Let_def)

theorem parseFormData_cases_witness:
  "parseFormData sample_parse object_members (post_request [(''a'', TextValue ''1'')]) default_key
      = Inr (Flattened (Obj [(''a'', Text ''1'')]))
   \<and> parseFormData sample_parse object_members (post_request [(''formData'', TextValue ''[]'')]) default_key
      = Inr (Decoded EmptyArray)
   \<and> parseFormData sample_parse object_members (post_request [(''formData'', FileValue 0)]) default_key
      = Inl (Error ''Data is not a string'')"
proof -
  have a: "formData (post_request es) = Inr es" for es
    by (simp add: post_request_def)
  have g: "generateFormData object_members [(''a'', TextValue ''1'')] = Inr (Obj [(''a'', Text ''1'')])"
    by (simp add: generateFormData_def put_entry_def in_model_def key_names_def strip_bracket_def
      prototype_members_def object_members_def array_members_def string_members_def
      file_members_def put_last_def all_digits_def is_digit_def put_def array_index_def)
  show ?thesis
    using parseFormData_cases [OF a, of "[(''a'', TextValue ''1'')]" default_key sample_parse object_members]
      parseFormData_cases [OF a, of "[(''formData'', TextValue ''[]'')]" default_key sample_parse object_members]
      parseFormData_cases [OF a, of "[(''formData'', FileValue 0)]" default_key sample_parse object_members]
    by (simp add: form_get_def default_key_def g sample_parse_def)
qed

text \<open>
  C6: for a value \<open>obj\<close> that \<^verbatim>\<open>JSON.stringify\<close> encodes as a text from which
  \<^verbatim>\<open>JSON.parse\<close> gives \<open>obj\<close> back (a JSON text is never empty), and every key \<open>k\<close>,
  \<^verbatim>\<open>parseFormData(request, k)\<close> on a request whose form body is
  \<^verbatim>\<open>createFormData(obj, k)\<close> returns \<open>obj\<close>.
\<close>

theorem createFormData_parseFormData_roundtrip:
  assumes "json_parse (json_stringify obj) = Inr obj"
    and "json_stringify obj \<noteq> []"
    and "formData request = Inr (createFormData json_stringify obj k)"
  shows "parseFormData json_parse inherited request k = Inr (Decoded obj)"
  using assms by (simp add: parseFormData_def createFormData_def form_get_def)

theorem createFormData_parseFormData_roundtrip_witness:
  "sample_parse (sample_stringify EmptyObject) = Inr EmptyObject
   \<and> sample_stringify EmptyObject \<noteq> []
   \<and> parseFormData sample_parse object_members
        (post_request (createFormData sample_stringify EmptyObject ''payload'')) ''payload''
      = Inr (Decoded EmptyObject)"
proof -
  have p: "sample_parse (sample_stringify EmptyObject) = Inr EmptyObject"
    by (simp add: sample_parse_def)
  have n: "sample_stringify EmptyObject \<noteq> []"
    by simp
  have f: "formData (post_request (createFormData sample_stringify EmptyObject ''payload''))
      = Inr (createFormData sample_stringify EmptyObject ''payload'')"
    by (simp add: post_request_def)
  show ?thesis
    using p n f
      createFormData_parseFormData_roundtrip [where json_parse = sample_parse
        and json_stringify = sample_stringify and obj = EmptyObject and k = "''payload''"
        and request = "post_request (createFormData sample_stringify EmptyObject ''payload'')"
        and inherited = object_members]
    by simp
qed

section \<open>Properties of the error merger\<close>

subsection \<open>The callback\<close>

text \<open>
  The recursive calls pass no callback, so the default no-op runs in them: the state
  the caller's callback acts on comes back unchanged from the loop over the entries.
\<close>

lemma merge_noop_state:
  "\<forall>fe' s'. mergeErrors fe be cb s = Inr (fe', s') \<longrightarrow> s' = (if js_truthy be then cb s else s)"
  "\<forall>fe' s'. merge_entries fe es s = Inr (fe', s') \<longrightarrow> s' = s"
proof (induction fe be cb s and fe es s rule: mergeErrors_merge_entries.induct)
  case (1 frontendErrors backendErrors onMerge s)
  then show ?case by (subst mergeErrors.simps) (auto split: sum.splits)
next
  case (2 frontendErrors s)
  then show ?case by simp
next
  case (3 frontendErrors key rightValue rest s)
  show ?case
  proof (intro allI impI)
    fix fe' s'
    assume r: "merge_entries frontendErrors ((key, rightValue) # rest) s = Inr (fe', s')"
    show "s' = s"
    proof (cases "typeof_object rightValue \<and> \<not> isArray rightValue \<and> \<not> js_truthy (message_of rightValue)")
      case True
      then obtain sub fe1 s1 where p: "parseRightValue key rightValue = Inr sub"
        and m: "mergeErrors frontendErrors sub (\<lambda>u. u) s = Inr (fe1, s1)"
        and e: "merge_entries fe1 rest s1 = Inr (fe', s')"
        using r by (subst (asm) merge_entries.simps) (auto split: sum.splits)
      have "s1 = s" using "3.IH"(1) [OF True p] m by (auto split: if_splits)
      moreover have "s' = s1" using "3.IH"(2) [OF True p m refl] e by simp
      ultimately show ?thesis by simp
    next
      case False
      show ?thesis
      proof (cases "js_truthy (message_of rightValue)")
        case True
        then obtain fe1 where a: "assign frontendErrors key (JObj (spread [(''type'', JStr ''custom'')] rightValue)) = Inr fe1"
          and e: "merge_entries fe1 rest s = Inr (fe', s')"
          using r False by (subst (asm) merge_entries.simps) (auto split: sum.splits)
        show ?thesis using "3.IH"(3) [OF False True a] e by simp
      next
        case nomsg: False
        show ?thesis
        proof (cases "case rightValue of JStr m \<Rightarrow> True | _ \<Rightarrow> False")
          case True
          then obtain fe1 where a: "assign frontendErrors key (JObj [(''message'', rightValue), (''type'', JStr ''custom'')]) = Inr fe1"
            and e: "merge_entries fe1 rest s = Inr (fe', s')"
            using r False nomsg by (subst (asm) merge_entries.simps) (auto split: sum.splits)
          show ?thesis using "3.IH"(4) [OF False nomsg True a] e by simp
        next
          case nostr: False
          then have e: "merge_entries frontendErrors rest s = Inr (fe', s')"
            using r False nomsg by (subst (asm) merge_entries.simps) (auto split: sum.splits)
          show ?thesis using "3.IH"(5) [OF False nomsg nostr] e by simp
        qed
      qed
    qed
  qed
qed

lemmas merge_entries_state = merge_noop_state(2) [rule_format]

subsection \<open>Property lists\<close>

lemma map_of_replace_prop:
  "k \<in> fst ` set ps \<Longrightarrow> map_of (replace_prop k v ps) k' = (if k' = k then Some v else map_of ps k')"
  by (induction ps) force+

lemma map_of_insert_index:
  "k \<notin> fst ` set ps \<Longrightarrow> map_of (insert_index n k v ps) k' = (if k' = k then Some v else map_of ps k')"
  by (induction ps) (auto split: option.splits)

lemma map_of_append_new:
  "k \<notin> fst ` set ps \<Longrightarrow> map_of (ps @ [(k, v)]) k' = (if k' = k then Some v else map_of ps k')"
  by (induction ps) auto

lemma map_of_put_cases:
  "k \<in> fst ` set ps \<Longrightarrow> put k v ps = replace_prop k v ps"
  "k \<notin> fst ` set ps \<Longrightarrow> array_index k = Some n \<Longrightarrow> put k v ps = insert_index n k v ps"
  "k \<notin> fst ` set ps \<Longrightarrow> array_index k = None \<Longrightarrow> put k v ps = ps @ [(k, v)]"
  by (simp_all add: put_def)

lemma map_of_put: "map_of (put k v ps) k' = (if k' = k then Some v else map_of ps k')"
proof (cases "k \<in> fst ` set ps")
  case True
  then show ?thesis by (simp only: map_of_put_cases map_of_replace_prop)
next
  case False
  then show ?thesis
    by (cases "array_index k") (simp_all add: map_of_put_cases map_of_insert_index map_of_append_new del: map_of_append)
qed

subsection \<open>The branches of the loop\<close>

lemma mergeErrors_JObj:
  "mergeErrors fe (JObj ps) cb s =
     (case merge_entries fe ps s of Inl e \<Rightarrow> Inl e | Inr (fe', s') \<Rightarrow> Inr (fe', cb s'))"
  by (subst mergeErrors.simps) simp

lemma merge_entries_object:
  assumes "typeof_object rightValue" "\<not> isArray rightValue" "\<not> js_truthy (message_of rightValue)"
  shows "merge_entries fe ((key, rightValue) # rest) s =
     (case parseRightValue key rightValue of
        Inl e \<Rightarrow> Inl e
      | Inr sub \<Rightarrow>
          (case mergeErrors fe sub (\<lambda>u. u) s of
             Inl e \<Rightarrow> Inl e
           | Inr (fe', s') \<Rightarrow> merge_entries fe' rest s'))"
  using assms by (subst merge_entries.simps) simp

lemma merge_entries_message:
  assumes "js_truthy (message_of rightValue)"
  shows "merge_entries fe ((key, rightValue) # rest) s =
     (case assign fe key (JObj (spread [(''type'', JStr ''custom'')] rightValue)) of
        Inl e \<Rightarrow> Inl e
      | Inr fe' \<Rightarrow> merge_entries fe' rest s)"
  using assms by (subst merge_entries.simps) simp

lemma merge_entries_string:
  "merge_entries fe ((key, JStr m) # rest) s =
     (case assign fe key (JObj [(''message'', JStr m), (''type'', JStr ''custom'')]) of
        Inl e \<Rightarrow> Inl e
      | Inr fe' \<Rightarrow> merge_entries fe' rest s)"
  by (subst merge_entries.simps) simp

text \<open>
  C8, amended: when \<^verbatim>\<open>backendErrors\<close> is falsy (\<^verbatim>\<open>undefined\<close>, \<^verbatim>\<open>null\<close>, and also
  \<^verbatim>\<open>false\<close>, \<^verbatim>\<open>0\<close> and the empty string), \<^verbatim>\<open>mergeErrors\<close> returns the frontend tree
  unchanged and does not invoke the callback; when it is truthy and the merge raises
  no error, the caller's callback is invoked exactly once, after all entries are
  processed, and the frontend tree the loop has built is returned.
\<close>

theorem mergeErrors_onMerge:
  "(\<not> js_truthy backendErrors \<longrightarrow> mergeErrors fe backendErrors onMerge s = Inr (fe, s))
   \<and> (js_truthy backendErrors \<longrightarrow>
        (\<forall>fe' s'. mergeErrors fe backendErrors onMerge s = Inr (fe', s') \<longrightarrow>
           s' = onMerge s \<and> merge_entries fe (own_props backendErrors) s = Inr (fe', s)))"
proof (intro conjI impI allI)
  assume "\<not> js_truthy backendErrors"
  then show "mergeErrors fe backendErrors onMerge s = Inr (fe, s)"
    by (subst mergeErrors.simps) simp
next
  fix fe' s'
  assume t: "js_truthy backendErrors" and r: "mergeErrors fe backendErrors onMerge s = Inr (fe', s')"
  from r t obtain s1 where e: "merge_entries fe (own_props backendErrors) s = Inr (fe', s1)"
    and s': "s' = onMerge s1"
    by (subst (asm) mergeErrors.simps) (auto split: sum.splits)
  have "s1 = s" using e by (rule merge_entries_state)
  then show "s' = onMerge s" and "merge_entries fe (own_props backendErrors) s = Inr (fe', s)"
    using e s' by simp_all
qed

text \<open>
  C8, as stated, fails: \<^verbatim>\<open>false\<close> is a value that is present, and with it the callback
  (here the successor function on a counter of invocations) is not invoked.
\<close>

theorem mergeErrors_falsy_counterexample:
  "mergeErrors [(''name'', JStr ''kept'')] (JBool False) Suc (0::nat) = Inr ([(''name'', JStr ''kept'')], 0)"
  by (subst mergeErrors.simps) simp

theorem mergeErrors_onMerge_witness:
  "mergeErrors [] JUndefined Suc (0::nat) = Inr ([], 0)
   \<and> mergeErrors [] (JObj [(''name'', JStr ''Required'')]) Suc (0::nat)
      = Inr ([(''name'', JObj [(''message'', JStr ''Required''), (''type'', JStr ''custom'')])], Suc 0)
   \<and> merge_entries [] [(''name'', JStr ''Required'')] (0::nat)
      = Inr ([(''name'', JObj [(''message'', JStr ''Required''), (''type'', JStr ''custom'')])], 0)"
proof -
  have a: "mergeErrors [] JUndefined Suc (0::nat) = Inr ([], 0)"
    using mergeErrors_onMerge [of JUndefined "[]" Suc "0::nat"] by simp
  have r: "mergeErrors [] (JObj [(''name'', JStr ''Required'')]) Suc (0::nat)
      = Inr ([(''name'', JObj [(''message'', JStr ''Required''), (''type'', JStr ''custom'')])], Suc 0)"
    by (simp add: mergeErrors_JObj merge_entries_string assign_def put_def array_index_def
        all_digits_def is_digit_def)
  have "js_truthy (JObj [(''name'', JStr ''Required'')])"
    by simp
  then have b: "merge_entries [] (own_props (JObj [(''name'', JStr ''Required'')])) (0::nat)
      = Inr ([(''name'', JObj [(''message'', JStr ''Required''), (''type'', JStr ''custom'')])], 0)"
    using mergeErrors_onMerge [of "JObj [(''name'', JStr ''Required'')]" "[]" Suc "0::nat"] r
    by blast
  show ?thesis
    using a r b by (simp only: own_props.simps simp_thms)
qed

subsection \<open>Nested sub-trees\<close>

text \<open>
  The flattening, in the words of the specification: \<open>leaf_entries es\<close> lists, in the
  order of the backend entries \<open>es\<close>, the keys and values that the merge stores at the
  top level of the frontend tree. A string leaf is stored as a message of type
  \<^verbatim>\<open>custom\<close>, an object with a truthy message as the object itself with that type as
  a default, an object without one contributes the leaves of its sub-tree (its own key
  is lost), and any other value contributes nothing. \<open>mergeable es\<close> keeps the tree
  apart from the two special keys: no sub-tree is under \<^verbatim>\<open>root\<close>, where the root rule
  rewrites it first, and no leaf is under \<^verbatim>\<open>__proto__\<close>.
\<close>

fun leaf_entries :: "jsval props \<Rightarrow> jsval props" where
  "leaf_entries [] = []"
| "leaf_entries ((k, v) # rest) =
     (case v of
        JObj sub \<Rightarrow>
          if js_truthy (own_field sub ''message'')
          then [(k, JObj (spread [(''type'', JStr ''custom'')] v))]
          else leaf_entries sub
      | JStr m \<Rightarrow> [(k, JObj [(''message'', JStr m), (''type'', JStr ''custom'')])]
      | _ \<Rightarrow> [])
     @ leaf_entries rest"

fun mergeable :: "jsval props \<Rightarrow> bool" where
  "mergeable [] \<longleftrightarrow> True"
| "mergeable ((k, v) # rest) \<longleftrightarrow>
     (case v of
        JObj sub \<Rightarrow>
          if js_truthy (own_field sub ''message'') then k \<noteq> ''__proto__''
          else k \<noteq> ''root'' \<and> mergeable sub
      | JStr m \<Rightarrow> k \<noteq> ''__proto__''
      | JNull \<Rightarrow> k \<noteq> ''root''
      | _ \<Rightarrow> True)
     \<and> mergeable rest"

lemma merge_entries_skip:
  assumes "\<not> (typeof_object v \<and> \<not> isArray v \<and> \<not> js_truthy (message_of v))"
    and "\<not> js_truthy (message_of v)" and "\<not> (case v of JStr m \<Rightarrow> True | _ \<Rightarrow> False)"
  shows "merge_entries fe ((key, v) # rest) s = merge_entries fe rest s"
  using assms by (subst merge_entries.simps) auto

text \<open>The loop handles an entry and then the entries after it, whatever the entry is.\<close>

lemma merge_entries_step:
  "merge_entries fe (e # rest) s =
     (case merge_entries fe [e] s of Inl err \<Rightarrow> Inl err | Inr (fe', s') \<Rightarrow> merge_entries fe' rest s')"
proof -
  obtain k v where e: "e = (k, v)" by (cases e)
  consider (object) "typeof_object v \<and> \<not> isArray v \<and> \<not> js_truthy (message_of v)"
    | (message) "js_truthy (message_of v)"
    | (string) m where "v = JStr m"
    | (other) "\<not> (typeof_object v \<and> \<not> isArray v \<and> \<not> js_truthy (message_of v))"
        "\<not> js_truthy (message_of v)" "\<not> (case v of JStr m \<Rightarrow> True | _ \<Rightarrow> False)"
    by (cases v) auto
  then show ?thesis
  proof cases
    case object
    then show ?thesis
      unfolding e by (simp add: merge_entries_object split: sum.splits)
  next
    case message
    then show ?thesis
      unfolding e by (simp add: merge_entries_message split: sum.splits)
  next
    case string
    then show ?thesis
      unfolding e by (simp add: merge_entries_string split: sum.splits)
  next
    case other
    then show ?thesis
      unfolding e by (simp add: merge_entries_skip)
  qed
qed

lemma merge_entries_append:
  "merge_entries fe (xs @ ys) s =
     (case merge_entries fe xs s of Inl err \<Rightarrow> Inl err | Inr (fe', s') \<Rightarrow> merge_entries fe' ys s')"
proof (induction xs arbitrary: fe s)
  case Nil
  then show ?case by simp
next
  case (Cons e xs)
  show ?case
    by (subst append_Cons, subst merge_entries_step, subst (2) merge_entries_step)
      (simp add: Cons.IH split: sum.splits)
qed

lemma mergeErrors_noop: "mergeErrors fe (JObj ps) (\<lambda>u. u) s = merge_entries fe ps s"
  by (simp add: mergeErrors_JObj split: sum.splits)

lemma mergeErrors_append:
  "mergeErrors fe (JObj (xs @ ys)) onMerge s =
     (case mergeErrors fe (JObj xs) (\<lambda>u. u) s of
        Inl e \<Rightarrow> Inl e
      | Inr (fe', s') \<Rightarrow> mergeErrors fe' (JObj ys) onMerge s')"
  by (simp add: mergeErrors_noop mergeErrors_JObj [of _ _ onMerge] merge_entries_append
      split: sum.splits)

lemma mergeErrors_at:
  assumes "\<not> js_truthy (own_field sub ''message'')"
  shows "mergeErrors fe (JObj (before @ (key, JObj sub) # rest)) onMerge s =
     (case mergeErrors fe (JObj before) (\<lambda>u. u) s of
        Inl e \<Rightarrow> Inl e
      | Inr (fe1, s1) \<Rightarrow>
          (case parseRightValue key (JObj sub) of
             Inl e \<Rightarrow> Inl e
           | Inr t \<Rightarrow>
               (case mergeErrors fe1 t (\<lambda>u. u) s1 of
                  Inl e \<Rightarrow> Inl e
                | Inr (fe2, s2) \<Rightarrow> mergeErrors fe2 (JObj rest) onMerge s2)))"
  using assms
  by (simp add: mergeErrors_noop mergeErrors_JObj [of _ _ onMerge] merge_entries_append
      merge_entries_object split: sum.splits)

lemma parseRightValue_other: "key \<noteq> ''root'' \<Longrightarrow> parseRightValue key v = Inr v"
  by (simp add: parseRightValue_def)

lemma mergeErrors_parent_key:
  assumes "\<not> js_truthy (own_field sub ''message'')" and "key \<noteq> ''root''"
  shows "mergeErrors fe (JObj [(key, JObj sub)]) onMerge s = mergeErrors fe (JObj sub) onMerge s"
proof -
  have "merge_entries fe [(key, JObj sub)] s = merge_entries fe sub s"
  proof (cases "merge_entries fe sub s")
    case (Inl e)
    then show ?thesis
      using assms by (simp add: merge_entries_object parseRightValue_other mergeErrors_JObj)
  next
    case (Inr p)
    obtain fe' s' where p: "p = (fe', s')" by (cases p)
    have "s' = s" using Inr unfolding p by (rule merge_entries_state)
    then show ?thesis
      using assms Inr p by (simp add: merge_entries_object parseRightValue_other mergeErrors_JObj)
  qed
  then show ?thesis by (simp add: mergeErrors_JObj)
qed

lemma merge_entries_flat:
  "mergeable es \<Longrightarrow>
   merge_entries fe es s = Inr (foldl (\<lambda>acc (k, v). put k v acc) fe (leaf_entries es), s)"
proof (induction es arbitrary: fe rule: leaf_entries.induct)
  case 1
  then show ?case by simp
next
  case (2 k v rest)
  have rest: "merge_entries fe' rest s
      = Inr (foldl (\<lambda>acc (k, v). put k v acc) fe' (leaf_entries rest), s)" for fe'
    using "2.IH"(2) "2.prems" by simp
  show ?case
  proof (cases v)
    case (JObj sub)
    show ?thesis
    proof (cases "js_truthy (own_field sub ''message'')")
      case True
      then show ?thesis
        using "2.prems" JObj rest by (simp add: merge_entries_message assign_def)
    next
      case False
      then have sub: "merge_entries fe' sub s
          = Inr (foldl (\<lambda>acc (k, v). put k v acc) fe' (leaf_entries sub), s)" for fe'
        using "2.IH"(1) [OF JObj False] "2.prems" JObj by simp
      show ?thesis
        using "2.prems" JObj False rest sub
        by (simp add: merge_entries_object parseRightValue_def mergeErrors_noop)
    qed
  next
    case (JStr m)
    then show ?thesis
      using "2.prems" rest by (simp add: merge_entries_string assign_def)
  next
    case JNull
    have "mergeErrors fe JNull (\<lambda>u. u) s = Inr (fe, s)"
      by (subst mergeErrors.simps) simp
    then show ?thesis
      using "2.prems" JNull rest by (simp add: merge_entries_object parseRightValue_def)
  next
    case JUndefined
    then show ?thesis using rest by (simp add: merge_entries_skip)
  next
    case (JBool b)
    then show ?thesis using rest by (simp add: merge_entries_skip)
  next
    case (JNum n)
    then show ?thesis using rest by (simp add: merge_entries_skip)
  next
    case (JArr vs)
    then show ?thesis using rest by (simp add: merge_entries_skip)
  qed
qed

lemma mergeErrors_flat:
  "mergeable es \<Longrightarrow>
   mergeErrors fe (JObj es) onMerge s
     = Inr (foldl (\<lambda>acc (k, v). put k v acc) fe (leaf_entries es), onMerge s)"
  by (simp add: mergeErrors_JObj merge_entries_flat)

lemma fst_put: "fst ` set (put k v fe) = insert k (fst ` set fe)"
proof -
  have "dom (map_of (put k v fe)) = insert k (dom (map_of fe))"
    by (auto simp: map_of_put dom_def)
  then show ?thesis by (simp add: dom_map_of_conv_image_fst)
qed

lemma fst_foldl_put:
  "fst ` set (foldl (\<lambda>acc (k, v). put k v acc) fe qs) = fst ` set fe \<union> fst ` set qs"
proof (induction qs arbitrary: fe)
  case Nil
  then show ?case by simp
next
  case (Cons q qs)
  obtain k v where q: "q = (k, v)" by (cases q)
  show ?case using Cons.IH [of "put k v fe"] by (auto simp: q fst_put)
qed

lemma mergeErrors_flat_at:
  assumes "\<not> js_truthy (own_field sub ''message'')"
    and "parseRightValue key (JObj sub) = Inr (JObj t)"
    and "mergeable before" "mergeable t" "mergeable rest"
  shows "mergeErrors fe (JObj (before @ (key, JObj sub) # rest)) onMerge s
     = Inr (foldl (\<lambda>acc (k, v). put k v acc) fe
              (leaf_entries before @ leaf_entries t @ leaf_entries rest), onMerge s)"
  using assms by (simp add: mergeErrors_at mergeErrors_flat)

text \<open>
  C2. An entry whose value is a non-array object without a truthy \<^verbatim>\<open>message\<close> is
  merged, wherever it stands among the entries, by a recursive call on the frontend
  tree itself (the tree as the entries before it have left it) with the sub-tree the
  root rule returns, and the entries after it are merged into the result. The root
  rule returns the value itself unless the key is \<^verbatim>\<open>root\<close>; under \<^verbatim>\<open>root\<close> it returns
  the single entry \<^verbatim>\<open>root.random\<close> or \<^verbatim>\<open>root.serverError\<close> when that sub-field alone is
  truthy, and the value itself when neither is. Entry lists are merged one after the
  other. So the parent key of a sub-tree plays no part (unless it is \<^verbatim>\<open>root\<close>): merging
  \<^verbatim>\<open>{key: sub}\<close> is merging \<^verbatim>\<open>sub\<close>; and the merge of a whole tree stores, in the order
  of the entries, every leaf of every depth under its own key at the top level of the
  frontend tree, whose keys afterwards are the keys it had and the keys of the leaves.
\<close>

theorem mergeErrors_flattens:
  "(\<not> js_truthy (own_field sub ''message'') \<longrightarrow>
      mergeErrors fe (JObj (before @ (key, JObj sub) # rest)) onMerge s =
        (case mergeErrors fe (JObj before) (\<lambda>u. u) s of
           Inl e \<Rightarrow> Inl e
         | Inr (fe1, s1) \<Rightarrow>
             (case parseRightValue key (JObj sub) of
                Inl e \<Rightarrow> Inl e
              | Inr t \<Rightarrow>
                  (case mergeErrors fe1 t (\<lambda>u. u) s1 of
                     Inl e \<Rightarrow> Inl e
                   | Inr (fe2, s2) \<Rightarrow> mergeErrors fe2 (JObj rest) onMerge s2))))
   \<and> (key \<noteq> ''root'' \<longrightarrow> parseRightValue key (JObj sub) = Inr (JObj sub))
   \<and> (\<not> (js_truthy (own_field sub ''serverError'') \<and> js_truthy (own_field sub ''random'')) \<longrightarrow>
      parseRightValue ''root'' (JObj sub) =
        Inr (if js_truthy (own_field sub ''random'')
             then JObj [(''root.random'',
                    JObj (spread [(''type'', JStr ''random'')] (own_field sub ''random'')))]
             else if js_truthy (own_field sub ''serverError'')
             then JObj [(''root.serverError'',
                    JObj (spread [(''type'', JStr ''400'')] (own_field sub ''serverError'')))]
             else JObj sub))
   \<and> mergeErrors fe (JObj (xs @ ys)) onMerge s =
        (case mergeErrors fe (JObj xs) (\<lambda>u. u) s of
           Inl e \<Rightarrow> Inl e
         | Inr (fe', s') \<Rightarrow> mergeErrors fe' (JObj ys) onMerge s')
   \<and> (\<not> js_truthy (own_field sub ''message'') \<and> key \<noteq> ''root'' \<longrightarrow>
      mergeErrors fe (JObj [(key, JObj sub)]) onMerge s = mergeErrors fe (JObj sub) onMerge s)
   \<and> (mergeable es \<longrightarrow>
      mergeErrors fe (JObj es) onMerge s
        = Inr (foldl (\<lambda>acc (k, v). put k v acc) fe (leaf_entries es), onMerge s))
   \<and> (mergeable es \<longrightarrow>
      (\<exists>fe'. mergeErrors fe (JObj es) onMerge s = Inr (fe', onMerge s)
            \<and> fst ` set fe' = fst ` set fe \<union> fst ` set (leaf_entries es)))
   \<and> (\<not> js_truthy (own_field sub ''message'') \<and> parseRightValue key (JObj sub) = Inr (JObj t)
        \<and> mergeable before \<and> mergeable t \<and> mergeable rest \<longrightarrow>
      mergeErrors fe (JObj (before @ (key, JObj sub) # rest)) onMerge s
        = Inr (foldl (\<lambda>acc (k, v). put k v acc) fe
                 (leaf_entries before @ leaf_entries t @ leaf_entries rest), onMerge s))"
proof (intro conjI impI)
  assume "\<not> js_truthy (own_field sub ''message'')"
  then show "mergeErrors fe (JObj (before @ (key, JObj sub) # rest)) onMerge s =
        (case mergeErrors fe (JObj before) (\<lambda>u. u) s of
           Inl e \<Rightarrow> Inl e
         | Inr (fe1, s1) \<Rightarrow>
             (case parseRightValue key (JObj sub) of
                Inl e \<Rightarrow> Inl e
              | Inr t \<Rightarrow>
                  (case mergeErrors fe1 t (\<lambda>u. u) s1 of
                     Inl e \<Rightarrow> Inl e
                   | Inr (fe2, s2) \<Rightarrow> mergeErrors fe2 (JObj rest) onMerge s2)))"
    by (rule mergeErrors_at)
next
  assume "key \<noteq> ''root''"
  then show "parseRightValue key (JObj sub) = Inr (JObj sub)"
    by (rule parseRightValue_other)
next
  assume "\<not> (js_truthy (own_field sub ''serverError'') \<and> js_truthy (own_field sub ''random''))"
  then show "parseRightValue ''root'' (JObj sub) =
        Inr (if js_truthy (own_field sub ''random'')
             then JObj [(''root.random'',
                    JObj (spread [(''type'', JStr ''random'')] (own_field sub ''random'')))]
             else if js_truthy (own_field sub ''serverError'')
             then JObj [(''root.serverError'',
                    JObj (spread [(''type'', JStr ''400'')] (own_field sub ''serverError'')))]
             else JObj sub)"
    by (simp add: parseRightValue_def)
next
  show "mergeErrors fe (JObj (xs @ ys)) onMerge s =
        (case mergeErrors fe (JObj xs) (\<lambda>u. u) s of
           Inl e \<Rightarrow> Inl e
         | Inr (fe', s') \<Rightarrow> mergeErrors fe' (JObj ys) onMerge s')"
    by (rule mergeErrors_append)
next
  assume "\<not> js_truthy (own_field sub ''message'') \<and> key \<noteq> ''root''"
  then show "mergeErrors fe (JObj [(key, JObj sub)]) onMerge s = mergeErrors fe (JObj sub) onMerge s"
    using mergeErrors_parent_key [of sub key fe onMerge s] by simp
next
  assume "mergeable es"
  then show "mergeErrors fe (JObj es) onMerge s
        = Inr (foldl (\<lambda>acc (k, v). put k v acc) fe (leaf_entries es), onMerge s)"
    by (rule mergeErrors_flat)
next
  assume "mergeable es"
  then show "\<exists>fe'. mergeErrors fe (JObj es) onMerge s = Inr (fe', onMerge s)
            \<and> fst ` set fe' = fst ` set fe \<union> fst ` set (leaf_entries es)"
    using mergeErrors_flat [of es fe onMerge s] fst_foldl_put [of fe "leaf_entries es"] by simp
next
  assume "\<not> js_truthy (own_field sub ''message'') \<and> parseRightValue key (JObj sub) = Inr (JObj t)
        \<and> mergeable before \<and> mergeable t \<and> mergeable rest"
  then show "mergeErrors fe (JObj (before @ (key, JObj sub) # rest)) onMerge s
        = Inr (foldl (\<lambda>acc (k, v). put k v acc) fe
                 (leaf_entries before @ leaf_entries t @ leaf_entries rest), onMerge s)"
    using mergeErrors_flat_at [of sub key t before rest fe onMerge s] by simp
qed

lemmas merge_eval =
  own_field_def spread_def put_def array_index_def all_digits_def is_digit_def

theorem mergeErrors_flattens_witness:
  "mergeErrors []
      (JObj [(''email'', JStr ''Invalid''),
             (''address'', JObj [(''street'', JStr ''Required''),
                                (''geo'', JObj [(''zip'', JStr ''Bad'')])]),
             (''name'', JObj [(''message'', JStr ''Taken'')])]) Suc (0::nat)
     = Inr ([(''email'', JObj [(''message'', JStr ''Invalid''), (''type'', JStr ''custom'')]),
             (''street'', JObj [(''message'', JStr ''Required''), (''type'', JStr ''custom'')]),
             (''zip'', JObj [(''message'', JStr ''Bad''), (''type'', JStr ''custom'')]),
             (''name'', JObj [(''type'', JStr ''custom''), (''message'', JStr ''Taken'')])], Suc 0)
   \<and> mergeErrors []
      (JObj [(''a'', JStr ''x''),
             (''root'', JObj [(''serverError'', JObj [(''message'', JStr ''boom'')])]),
             (''b'', JStr ''y'')]) Suc (0::nat)
     = Inr ([(''a'', JObj [(''message'', JStr ''x''), (''type'', JStr ''custom'')]),
             (''root.serverError'', JObj [(''type'', JStr ''400''), (''message'', JStr ''boom'')]),
             (''b'', JObj [(''message'', JStr ''y''), (''type'', JStr ''custom'')])], Suc 0)
   \<and> mergeErrors [] (JObj [(''a'', JObj [(''c'', JStr ''deep'')])]) Suc (0::nat)
     = mergeErrors [] (JObj [(''c'', JStr ''deep'')]) Suc (0::nat)"
proof -
  have m1: "mergeable [(''email'', JStr ''Invalid''),
             (''address'', JObj [(''street'', JStr ''Required''),
                                (''geo'', JObj [(''zip'', JStr ''Bad'')])]),
             (''name'', JObj [(''message'', JStr ''Taken'')])]"
    by (simp add: merge_eval)
  have r1: "mergeErrors []
      (JObj [(''email'', JStr ''Invalid''),
             (''address'', JObj [(''street'', JStr ''Required''),
                                (''geo'', JObj [(''zip'', JStr ''Bad'')])]),
             (''name'', JObj [(''message'', JStr ''Taken'')])]) Suc (0::nat)
     = Inr ([(''email'', JObj [(''message'', JStr ''Invalid''), (''type'', JStr ''custom'')]),
             (''street'', JObj [(''message'', JStr ''Required''), (''type'', JStr ''custom'')]),
             (''zip'', JObj [(''message'', JStr ''Bad''), (''type'', JStr ''custom'')]),
             (''name'', JObj [(''type'', JStr ''custom''), (''message'', JStr ''Taken'')])], Suc 0)"
    using mergeErrors_flattens [where fe = "[]" and onMerge = Suc and s = "0::nat"
        and es = "[(''email'', JStr ''Invalid''),
             (''address'', JObj [(''street'', JStr ''Required''),
                                (''geo'', JObj [(''zip'', JStr ''Bad'')])]),
             (''name'', JObj [(''message'', JStr ''Taken'')])]",
        THEN conjunct2, THEN conjunct2, THEN conjunct2, THEN conjunct2, THEN conjunct2,
        THEN conjunct1] m1
    by (simp add: merge_eval)
  have p: "parseRightValue ''root'' (JObj [(''serverError'', JObj [(''message'', JStr ''boom'')])])
      = Inr (JObj [(''root.serverError'', JObj [(''type'', JStr ''400''), (''message'', JStr ''boom'')])])"
    using mergeErrors_flattens [where sub = "[(''serverError'', JObj [(''message'', JStr ''boom'')])]",
        THEN conjunct2, THEN conjunct2, THEN conjunct1]
    by (simp add: merge_eval)
  have h2: "\<not> js_truthy (own_field [(''serverError'', JObj [(''message'', JStr ''boom'')])] ''message'')
      \<and> mergeable [(''a'', JStr ''x'')]
      \<and> mergeable [(''root.serverError'', JObj [(''type'', JStr ''400''), (''message'', JStr ''boom'')])]
      \<and> mergeable [(''b'', JStr ''y'')]"
    by (simp add: merge_eval)
  have "mergeErrors []
      (JObj ([(''a'', JStr ''x'')]
             @ (''root'', JObj [(''serverError'', JObj [(''message'', JStr ''boom'')])])
             # [(''b'', JStr ''y'')])) Suc (0::nat)
     = Inr (foldl (\<lambda>acc (k, v). put k v acc) []
              (leaf_entries [(''a'', JStr ''x'')]
               @ leaf_entries [(''root.serverError'',
                    JObj [(''type'', JStr ''400''), (''message'', JStr ''boom'')])]
               @ leaf_entries [(''b'', JStr ''y'')]), Suc 0)"
    using mergeErrors_flattens [where fe = "[]" and onMerge = Suc and s = "0::nat"
        and before = "[(''a'', JStr ''x'')]" and key = "''root''"
        and sub = "[(''serverError'', JObj [(''message'', JStr ''boom'')])]"
        and t = "[(''root.serverError'', JObj [(''type'', JStr ''400''), (''message'', JStr ''boom'')])]"
        and rest = "[(''b'', JStr ''y'')]",
        THEN conjunct2, THEN conjunct2, THEN conjunct2, THEN conjunct2, THEN conjunct2,
        THEN conjunct2, THEN conjunct2] p h2
    by blast
  then have r2: "mergeErrors []
      (JObj [(''a'', JStr ''x''),
             (''root'', JObj [(''serverError'', JObj [(''message'', JStr ''boom'')])]),
             (''b'', JStr ''y'')]) Suc (0::nat)
     = Inr ([(''a'', JObj [(''message'', JStr ''x''), (''type'', JStr ''custom'')]),
             (''root.serverError'', JObj [(''type'', JStr ''400''), (''message'', JStr ''boom'')]),
             (''b'', JObj [(''message'', JStr ''y''), (''type'', JStr ''custom'')])], Suc 0)"
    by (simp add: merge_eval)
  have h3: "\<not> js_truthy (own_field [(''c'', JStr ''deep'')] ''message'') \<and> ''a'' \<noteq> ''root''"
    by (simp add: own_field_def)
  have r3: "mergeErrors [] (JObj [(''a'', JObj [(''c'', JStr ''deep'')])]) Suc (0::nat)
     = mergeErrors [] (JObj [(''c'', JStr ''deep'')]) Suc (0::nat)"
    using mergeErrors_flattens [where fe = "[]" and onMerge = Suc and s = "0::nat"
        and key = "''a''" and sub = "[(''c'', JStr ''deep'')]",
        THEN conjunct2, THEN conjunct2, THEN conjunct2, THEN conjunct2, THEN conjunct1] h3
    by blast
  show ?thesis
    using r1 r2 r3 by blast
qed

subsection \<open>The root rule\<close>

lemma map_of_foldl_put:
  "distinct (map fst qs) \<Longrightarrow>
   map_of (foldl (\<lambda>acc (k, x). put k x acc) first qs) k
     = (case map_of qs k of Some x \<Rightarrow> Some x | None \<Rightarrow> map_of first k)"
proof (induction qs arbitrary: first)
  case Nil
  then show ?case by simp
next
  case (Cons q qs)
  obtain a x where q: "q = (a, x)" by (cases q)
  have "map_of qs a = None"
    using Cons.prems by (simp add: q map_of_eq_None_iff)
  then show ?case
    using Cons by (auto simp: q map_of_put split: option.splits)
qed

lemma map_of_spread_JObj:
  "distinct (map fst ps) \<Longrightarrow>
   map_of (spread first (JObj ps)) k
     = (case map_of ps k of Some x \<Rightarrow> Some x | None \<Rightarrow> map_of first k)"
  by (simp add: spread_def map_of_foldl_put)

lemma parseRightValue_root:
  "parseRightValue ''root'' (JObj sub) =
     Inr (if js_truthy (own_field sub ''random'')
          then JObj [(''root.random'', JObj (spread [(''type'', JStr ''random'')] (own_field sub ''random'')))]
          else if js_truthy (own_field sub ''serverError'')
          then JObj [(''root.serverError'',
                 JObj (spread [(''type'', JStr ''400'')] (own_field sub ''serverError'')))]
          else JObj sub)"
  by (simp add: parseRightValue_def)

lemma map_fst_replace_prop: "k \<in> fst ` set ps \<Longrightarrow> map fst (replace_prop k v ps) = map fst ps"
  by (induction ps) force+

lemma distinct_insert_index:
  "k \<notin> fst ` set ps \<Longrightarrow> distinct (map fst ps) \<Longrightarrow> distinct (map fst (insert_index n k v ps))"
proof (induction ps)
  case Nil
  then show ?case by simp
next
  case (Cons p ps)
  obtain k' v' where p: "p = (k', v')" by (cases p)
  have "k' \<notin> fst ` set (insert_index n k v ps)"
    using Cons.prems by (auto simp: p set_insert_index)
  then show ?case
    using Cons by (auto simp: p split: option.splits)
qed

lemma distinct_put: "distinct (map fst ps) \<Longrightarrow> distinct (map fst (put k v ps))"
proof (cases "k \<in> fst ` set ps")
  case True
  assume "distinct (map fst ps)"
  then show ?thesis using True by (simp add: map_of_put_cases map_fst_replace_prop)
next
  case False
  assume d: "distinct (map fst ps)"
  show ?thesis
  proof (cases "array_index k")
    case None
    then show ?thesis using False d by (simp add: map_of_put_cases)
  next
    case (Some n)
    then show ?thesis using False d by (simp add: map_of_put_cases distinct_insert_index)
  qed
qed

lemma distinct_foldl_put:
  "distinct (map fst first) \<Longrightarrow> distinct (map fst (foldl (\<lambda>acc (k, x). put k x acc) first qs))"
  by (induction qs arbitrary: first) (auto simp: distinct_put)

lemma distinct_spread: "distinct (map fst (spread [(k0, v0)] v))"
  by (simp add: spread_def distinct_foldl_put)

lemma root_entry_lookup:
  assumes "distinct (map fst se)"
  shows "map_of (spread [(''type'', JStr ''custom'')] (JObj (spread [(''type'', JStr t)] (JObj se)))) k
     = (case map_of se k of
          Some x \<Rightarrow> Some x
        | None \<Rightarrow> if k = ''type'' then Some (JStr t) else None)"
  using assms
  by (simp add: map_of_spread_JObj distinct_spread split: option.splits)

lemma own_field_spread_message:
  "distinct (map fst se) \<Longrightarrow>
   own_field (spread [(''type'', JStr t)] (JObj se)) ''message'' = own_field se ''message''"
  by (simp add: own_field_def map_of_spread_JObj split: option.splits)

lemma mergeErrors_root_entry:
  assumes "\<not> js_truthy (own_field sub ''message'')"
    and "parseRightValue ''root'' (JObj sub) = Inr (JObj [(dotted, JObj (spread [(''type'', JStr t)] (JObj se)))])"
    and "distinct (map fst se)"
    and "js_truthy (own_field se ''message'')"
    and "dotted \<noteq> ''__proto__''"
  shows "mergeErrors fe (JObj [(''root'', JObj sub)]) onMerge s
     = Inr (put dotted (JObj (spread [(''type'', JStr ''custom'')]
              (JObj (spread [(''type'', JStr t)] (JObj se))))) fe, onMerge s)"
proof -
  have inner: "mergeErrors fe (JObj [(dotted, JObj (spread [(''type'', JStr t)] (JObj se)))]) (\<lambda>u. u) s
      = Inr (put dotted (JObj (spread [(''type'', JStr ''custom'')]
              (JObj (spread [(''type'', JStr t)] (JObj se))))) fe, s)"
    using assms(3,4,5)
    by (simp add: mergeErrors_JObj merge_entries_message own_field_spread_message assign_def)
  show ?thesis
    using assms(1,2) inner by (simp add: mergeErrors_JObj merge_entries_object)
qed

text \<open>
  C1, amended: for a backend tree whose entry under \<^verbatim>\<open>root\<close> is an object, if the
  \<^verbatim>\<open>serverError\<close> sub-field is truthy and the \<^verbatim>\<open>random\<close> sub-field is not, the entry is
  rewritten to the single entry \<^verbatim>\<open>root.serverError\<close>, which holds the properties of the
  sub-field and the type \<^verbatim>\<open>400\<close> unless the sub-field has a type of its own, and the
  other sub-fields of \<^verbatim>\<open>root\<close> are dropped; likewise for \<^verbatim>\<open>random\<close> alone, with the
  type \<^verbatim>\<open>random\<close>; if neither sub-field is truthy, the entry is not rewritten and
  nothing is dropped. A rewritten entry that is an object with a truthy message is
  stored in the merged output under its dotted key. (What happens when both
  sub-fields are truthy is not part of the statement.)
\<close>

theorem root_rule:
  "(js_truthy (own_field sub ''serverError'') \<and> \<not> js_truthy (own_field sub ''random'') \<longrightarrow>
      parseRightValue ''root'' (JObj sub)
        = Inr (JObj [(''root.serverError'',
                 JObj (spread [(''type'', JStr ''400'')] (own_field sub ''serverError'')))]))
   \<and> (js_truthy (own_field sub ''random'') \<and> \<not> js_truthy (own_field sub ''serverError'') \<longrightarrow>
      parseRightValue ''root'' (JObj sub)
        = Inr (JObj [(''root.random'',
                 JObj (spread [(''type'', JStr ''random'')] (own_field sub ''random'')))]))
   \<and> (\<not> js_truthy (own_field sub ''serverError'') \<and> \<not> js_truthy (own_field sub ''random'') \<longrightarrow>
      parseRightValue ''root'' (JObj sub) = Inr (JObj sub))
   \<and> (\<not> js_truthy (own_field sub ''message'') \<and> own_field sub ''serverError'' = JObj se
        \<and> \<not> js_truthy (own_field sub ''random'')
        \<and> distinct (map fst se) \<and> js_truthy (own_field se ''message'') \<longrightarrow>
      (\<exists>entry.
         mergeErrors fe (JObj [(''root'', JObj sub)]) onMerge s
           = Inr (put ''root.serverError'' (JObj entry) fe, onMerge s)
         \<and> (\<forall>k. map_of entry k =
               (case map_of se k of
                  Some x \<Rightarrow> Some x
                | None \<Rightarrow> if k = ''type'' then Some (JStr ''400'') else None))))
   \<and> (\<not> js_truthy (own_field sub ''message'') \<and> own_field sub ''random'' = JObj se
        \<and> \<not> js_truthy (own_field sub ''serverError'')
        \<and> distinct (map fst se) \<and> js_truthy (own_field se ''message'') \<longrightarrow>
      (\<exists>entry.
         mergeErrors fe (JObj [(''root'', JObj sub)]) onMerge s
           = Inr (put ''root.random'' (JObj entry) fe, onMerge s)
         \<and> (\<forall>k. map_of entry k =
               (case map_of se k of
                  Some x \<Rightarrow> Some x
                | None \<Rightarrow> if k = ''type'' then Some (JStr ''random'') else None))))"
proof (intro conjI impI)
  assume "js_truthy (own_field sub ''serverError'') \<and> \<not> js_truthy (own_field sub ''random'')"
  then show "parseRightValue ''root'' (JObj sub)
        = Inr (JObj [(''root.serverError'',
                 JObj (spread [(''type'', JStr ''400'')] (own_field sub ''serverError'')))])"
    by (simp add: parseRightValue_root)
next
  assume "js_truthy (own_field sub ''random'') \<and> \<not> js_truthy (own_field sub ''serverError'')"
  then show "parseRightValue ''root'' (JObj sub)
        = Inr (JObj [(''root.random'',
                 JObj (spread [(''type'', JStr ''random'')] (own_field sub ''random'')))])"
    by (simp add: parseRightValue_root)
next
  assume "\<not> js_truthy (own_field sub ''serverError'') \<and> \<not> js_truthy (own_field sub ''random'')"
  then show "parseRightValue ''root'' (JObj sub) = Inr (JObj sub)"
    by (simp add: parseRightValue_root)
next
  assume a: "\<not> js_truthy (own_field sub ''message'') \<and> own_field sub ''serverError'' = JObj se
        \<and> \<not> js_truthy (own_field sub ''random'')
        \<and> distinct (map fst se) \<and> js_truthy (own_field se ''message'')"
  then have p: "parseRightValue ''root'' (JObj sub)
      = Inr (JObj [(''root.serverError'', JObj (spread [(''type'', JStr ''400'')] (JObj se)))])"
    by (simp add: parseRightValue_root)
  have "mergeErrors fe (JObj [(''root'', JObj sub)]) onMerge s
     = Inr (put ''root.serverError'' (JObj (spread [(''type'', JStr ''custom'')]
              (JObj (spread [(''type'', JStr ''400'')] (JObj se))))) fe, onMerge s)"
    using a by (intro mergeErrors_root_entry p) simp_all
  then show "\<exists>entry.
         mergeErrors fe (JObj [(''root'', JObj sub)]) onMerge s
           = Inr (put ''root.serverError'' (JObj entry) fe, onMerge s)
         \<and> (\<forall>k. map_of entry k =
               (case map_of se k of
                  Some x \<Rightarrow> Some x
                | None \<Rightarrow> if k = ''type'' then Some (JStr ''400'') else None))"
    using a root_entry_lookup [of se "''400''"] by blast
next
  assume a: "\<not> js_truthy (own_field sub ''message'') \<and> own_field sub ''random'' = JObj se
        \<and> \<not> js_truthy (own_field sub ''serverError'')
        \<and> distinct (map fst se) \<and> js_truthy (own_field se ''message'')"
  then have p: "parseRightValue ''root'' (JObj sub)
      = Inr (JObj [(''root.random'', JObj (spread [(''type'', JStr ''random'')] (JObj se)))])"
    by (simp add: parseRightValue_root)
  have "mergeErrors fe (JObj [(''root'', JObj sub)]) onMerge s
     = Inr (put ''root.random'' (JObj (spread [(''type'', JStr ''custom'')]
              (JObj (spread [(''type'', JStr ''random'')] (JObj se))))) fe, onMerge s)"
    using a by (intro mergeErrors_root_entry p) simp_all
  then show "\<exists>entry.
         mergeErrors fe (JObj [(''root'', JObj sub)]) onMerge s
           = Inr (put ''root.random'' (JObj entry) fe, onMerge s)
         \<and> (\<forall>k. map_of entry k =
               (case map_of se k of
                  Some x \<Rightarrow> Some x
                | None \<Rightarrow> if k = ''type'' then Some (JStr ''random'') else None))"
    using a root_entry_lookup [of se "''random''"] by blast
qed

text \<open>
  C1, as stated, fails: a \<^verbatim>\<open>serverError\<close> sub-field with a type of its own keeps it, and
  the entry \<^verbatim>\<open>root.serverError\<close> of the merged output has the type \<^verbatim>\<open>500\<close>, not
  \<^verbatim>\<open>400\<close>.
\<close>

theorem root_rule_own_type_counterexample:
  "mergeErrors []
     (JObj [(''root'', JObj [(''serverError'',
         JObj [(''type'', JStr ''500''), (''message'', JStr ''boom'')])])]) Suc (0::nat)
   = Inr ([(''root.serverError'', JObj [(''type'', JStr ''500''), (''message'', JStr ''boom'')])], Suc 0)"
  by code_simp

text \<open>
  With both sub-fields truthy the second assignment to \<^verbatim>\<open>value\<close> replaces the first,
  and only \<^verbatim>\<open>root.random\<close> reaches the merged output.
\<close>

lemma root_rule_both_present_example:
  "mergeErrors []
     (JObj [(''root'', JObj [(''serverError'', JObj [(''message'', JStr ''boom'')]),
                            (''random'', JObj [(''message'', JStr ''r'')])])]) Suc (0::nat)
   = Inr ([(''root.random'', JObj [(''type'', JStr ''random''), (''message'', JStr ''r'')])], Suc 0)"
  by code_simp

theorem root_rule_witness:
  "parseRightValue ''root''
      (JObj [(''serverError'', JObj [(''message'', JStr ''boom'')]), (''other'', JStr ''x'')])
     = Inr (JObj [(''root.serverError'', JObj [(''type'', JStr ''400''), (''message'', JStr ''boom'')])])
   \<and> (\<exists>entry.
        mergeErrors []
          (JObj [(''root'', JObj [(''serverError'', JObj [(''message'', JStr ''boom'')]),
                                 (''other'', JStr ''x'')])]) Suc (0::nat)
          = Inr (put ''root.serverError'' (JObj entry) [], Suc 0)
        \<and> map_of entry ''type'' = Some (JStr ''400'')
        \<and> map_of entry ''message'' = Some (JStr ''boom''))"
proof -
  note t = root_rule [of "[(''serverError'', JObj [(''message'', JStr ''boom'')]), (''other'', JStr ''x'')]"
      "[(''message'', JStr ''boom'')]" "[]" Suc "0::nat"]
  have h: "js_truthy (own_field [(''serverError'', JObj [(''message'', JStr ''boom'')]), (''other'', JStr ''x'')] ''serverError'')
      \<and> \<not> js_truthy (own_field [(''serverError'', JObj [(''message'', JStr ''boom'')]), (''other'', JStr ''x'')] ''random'')
      \<and> \<not> js_truthy (own_field [(''serverError'', JObj [(''message'', JStr ''boom'')]), (''other'', JStr ''x'')] ''message'')
      \<and> own_field [(''serverError'', JObj [(''message'', JStr ''boom'')]), (''other'', JStr ''x'')] ''serverError''
          = JObj [(''message'', JStr ''boom'')]
      \<and> distinct (map fst [(''message'', JStr ''boom'')])
      \<and> js_truthy (own_field [(''message'', JStr ''boom'')] ''message'')"
    by (simp add: own_field_def)
  have s: "spread [(''type'', JStr ''400'')] (JObj [(''message'', JStr ''boom'')])
      = [(''type'', JStr ''400''), (''message'', JStr ''boom'')]"
    by (simp add: spread_def put_def array_index_def all_digits_def is_digit_def)
  have "parseRightValue ''root''
      (JObj [(''serverError'', JObj [(''message'', JStr ''boom'')]), (''other'', JStr ''x'')])
     = Inr (JObj [(''root.serverError'', JObj (spread [(''type'', JStr ''400'')]
          (own_field [(''serverError'', JObj [(''message'', JStr ''boom'')]), (''other'', JStr ''x'')] ''serverError'')))])"
    using t h by blast
  then have a: "parseRightValue ''root''
      (JObj [(''serverError'', JObj [(''message'', JStr ''boom'')]), (''other'', JStr ''x'')])
     = Inr (JObj [(''root.serverError'', JObj [(''type'', JStr ''400''), (''message'', JStr ''boom'')])])"
    using h s by simp
  obtain entry where e: "mergeErrors []
          (JObj [(''root'', JObj [(''serverError'', JObj [(''message'', JStr ''boom'')]),
                                 (''other'', JStr ''x'')])]) Suc (0::nat)
          = Inr (put ''root.serverError'' (JObj entry) [], Suc 0)"
    and l: "\<forall>k. map_of entry k =
               (case map_of [(''message'', JStr ''boom'')] k of
                  Some x \<Rightarrow> Some x
                | None \<Rightarrow> if k = ''type'' then Some (JStr ''400'') else None)"
    using t h by blast
  have "map_of entry ''type'' = Some (JStr ''400'')" and "map_of entry ''message'' = Some (JStr ''boom'')"
    using l by simp_all
  then show ?thesis using a e by blast
qed

section \<open>Properties of the form-data flattener\<close>

subsection \<open>Kinds, paths and blocked entries\<close>

text \<open>
  The kind of a value, and \<open>resolve c p\<close>, the value found from \<open>c\<close> along the path of
  property names \<open>p\<close>.
\<close>

datatype kind = KText | KFile | KObject | KList

fun kind_of :: "fval \<Rightarrow> kind" where
  "kind_of (Text s) = KText"
| "kind_of (File f ps) = KFile"
| "kind_of (Obj ps) = KObject"
| "kind_of (Arr es ps) = KList"








text \<open>
  The names of the own properties in a tree that are not array indices, and the names
  a list of segments reads or writes.
\<close>

fun own_names :: "fval \<Rightarrow> string list" where
  "own_names (Text s) = []"
| "own_names (File f ps) = concat (map (\<lambda>(k, v). k # own_names v) ps)"
| "own_names (Obj ps) = concat (map (\<lambda>(k, v). k # own_names v) ps)"
| "own_names (Arr es ps) =
     concat (map (\<lambda>e. case e of None \<Rightarrow> [] | Some v \<Rightarrow> own_names v) es)
     @ concat (map (\<lambda>(k, v). k # own_names v) ps)"

definition prop_names :: "(string \<times> fval) list \<Rightarrow> string set" where
  "prop_names ps = (\<Union>(k, v) \<in> set ps. insert k (set (own_names v)))"

definition elem_names :: "fval option list \<Rightarrow> string set" where
  "elem_names es = (\<Union>e \<in> set es. case e of None \<Rightarrow> {} | Some v \<Rightarrow> set (own_names v))"

definition path_names :: "string list \<Rightarrow> string list" where
  "path_names ps = butlast ps @ [case strip_bracket (last ps) of Some f \<Rightarrow> f | None \<Rightarrow> last ps]"

subsection \<open>Reading, writing and appending\<close>




lemma set_prop_error: "set_prop c k v = Inl e \<Longrightarrow> e = TypeError \<and> kind_of c = KText"
  by (cases c) (auto split: option.splits)










subsection \<open>The last segment\<close>






subsection \<open>The walk\<close>
















subsection \<open>The outer loop\<close>

lemma store_Inr: "store c k r = Inr c' \<Longrightarrow> \<exists>child. r = Inr child \<and> set_prop c k child = Inr c'"
  by (cases r) (simp_all add: store_def)

lemma split_dot_nonempty: "split_dot s \<noteq> []"
  by (induction s) (auto split: list.splits)




subsection \<open>Own property names\<close>

text \<open>
  The tree that \<^verbatim>\<open>generateFormData\<close> returns has no own property with a name that the
  runtime defines: the code creates a named property only under a segment of a key,
  and \<open>put_entry\<close> admits no key with such a segment. So in every tree the loop
  reaches, a read of an admitted name finds an own property or nothing, no array has
  an own property \<^verbatim>\<open>push\<close> or \<^verbatim>\<open>length\<close>, and no file an own property \<^verbatim>\<open>name\<close>.
\<close>

lemma own_names_sets:
  "set (own_names (File f ps)) = prop_names ps"
  "set (own_names (Obj ps)) = prop_names ps"
  "set (own_names (Arr es ps)) = elem_names es \<union> prop_names ps"
  by (auto simp: prop_names_def elem_names_def split: option.splits)

lemma own_names_empty [simp]:
  "own_names (File f []) = []" "own_names (Obj []) = []" "own_names (Arr [] []) = []"
  by simp_all

declare own_names.simps(2,3,4) [simp del]

lemma prop_names_put: "prop_names (put k v ps) \<subseteq> insert k (set (own_names v)) \<union> prop_names ps"
  using set_put [of k v ps] by (fastforce simp: prop_names_def)

lemma elem_names_set_index: "elem_names (set_index es i v) \<subseteq> set (own_names v) \<union> elem_names es"
proof (cases "i < length es")
  case True
  then show ?thesis
    using set_update_subset_insert [of es i "Some v"]
    by (fastforce simp: elem_names_def set_index_def split: option.splits)
next
  case False
  then show ?thesis by (auto simp: elem_names_def set_index_def split: option.splits)
qed

lemma names_set_prop:
  "set_prop c k v = Inr c' \<Longrightarrow> set (own_names c') \<subseteq> insert k (set (own_names v)) \<union> set (own_names c)"
proof (cases c)
  case (Text s)
  assume "set_prop c k v = Inr c'"
  then show ?thesis using Text by simp
next
  case (File f ps)
  assume "set_prop c k v = Inr c'"
  then have "c' = File f (put k v ps)" using File by simp
  then show ?thesis using File prop_names_put [of k v ps] by (simp add: own_names_sets)
next
  case (Obj ps)
  assume "set_prop c k v = Inr c'"
  then have "c' = Obj (put k v ps)" using Obj by simp
  then show ?thesis using Obj prop_names_put [of k v ps] by (simp add: own_names_sets)
next
  case (Arr es ps)
  assume "set_prop c k v = Inr c'"
  then consider i where "c' = Arr (set_index es i v) ps" | "c' = Arr es (put k v ps)"
    using Arr by (auto split: option.splits)
  then show ?thesis
  proof cases
    case 1
    then show ?thesis using Arr elem_names_set_index [of es i v] by (auto simp: own_names_sets)
  next
    case 2
    then show ?thesis using Arr prop_names_put [of k v ps] by (auto simp: own_names_sets)
  qed
qed

lemma names_push: "push c v = Inr c' \<Longrightarrow> set (own_names c') \<subseteq> set (own_names v) \<union> set (own_names c)"
  by (cases c) (auto simp: own_names_sets elem_names_def split: if_splits)

lemma prop_names_map_of: "map_of ps k = Some v \<Longrightarrow> set (own_names v) \<subseteq> prop_names ps"
  by (auto simp: prop_names_def dest!: map_of_SomeD)

lemma names_get_prop: "get_prop c k = Some child \<Longrightarrow> set (own_names child) \<subseteq> set (own_names c)"
proof (cases c)
  case (Text s)
  assume "get_prop c k = Some child"
  then show ?thesis using Text by (auto split: option.splits if_splits)
next
  case (File f ps)
  assume "get_prop c k = Some child"
  then show ?thesis using File prop_names_map_of [of ps k child] by (simp add: own_names_sets)
next
  case (Obj ps)
  assume "get_prop c k = Some child"
  then show ?thesis using Obj prop_names_map_of [of ps k child] by (simp add: own_names_sets)
next
  case (Arr es ps)
  assume g: "get_prop c k = Some child"
  show ?thesis
  proof (cases "array_index k")
    case None
    then show ?thesis using g Arr prop_names_map_of [of ps k child] by (auto simp: own_names_sets)
  next
    case (Some i)
    then have "i < length es" "es ! i = Some child" using g Arr by (auto split: if_splits)
    then have "Some child \<in> set es" by (metis nth_mem)
    then have "set (own_names child) \<subseteq> elem_names es" by (force simp: elem_names_def)
    then show ?thesis using Arr by (auto simp: own_names_sets)
  qed
qed

lemma names_ensure:
  assumes "ensure c k fresh = Inr (c', child)"
  shows "set (own_names c') \<subseteq> insert k (set (own_names fresh)) \<union> set (own_names c)
       \<and> set (own_names child) \<subseteq> set (own_names fresh) \<union> set (own_names c)"
proof (cases "get_prop c k")
  case None
  then have "set_prop c k fresh = Inr c'" "child = fresh"
    using assms by (cases "set_prop c k fresh"; simp add: ensure_def)+
  then show ?thesis using names_set_prop [of c k fresh c'] by auto
next
  case (Some x)
  show ?thesis
  proof (cases "truthy x")
    case True
    then have "c' = c" "child = x" using assms Some by (simp_all add: ensure_def)
    then show ?thesis using names_get_prop [OF Some] by auto
  next
    case False
    then have "set_prop c k fresh = Inr c'" "child = fresh"
      using assms Some by (cases "set_prop c k fresh"; simp add: ensure_def)+
    then show ?thesis using names_set_prop [of c k fresh c'] by auto
  qed
qed

lemma names_put_last:
  assumes "put_last c l v = Inr c'"
  shows "set (own_names c') \<subseteq>
     insert (case strip_bracket l of Some f \<Rightarrow> f | None \<Rightarrow> l) (set (own_names v)) \<union> set (own_names c)"
proof (cases "strip_bracket l")
  case None
  show ?thesis
  proof (cases "all_digits l")
    case True
    then show ?thesis using assms None names_push [of c v c'] by (auto simp: put_last_def)
  next
    case False
    then show ?thesis using assms None names_set_prop [of c l v c'] by (auto simp: put_last_def)
  qed
next
  case (Some f)
  obtain c1 target where e: "ensure c f (Arr [] []) = Inr (c1, target)"
    and s: "store c1 f (push target v) = Inr c'"
    using assms Some by (auto simp: put_last_def split: sum.splits)
  obtain t' where t': "push target v = Inr t'" "set_prop c1 f t' = Inr c'"
    using store_Inr [OF s] by blast
  show ?thesis
    using names_ensure [OF e] names_push [OF t'(1)] names_set_prop [OF t'(2)] Some
    by auto
qed

lemma names_new_container: "own_names (new_container n) = []"
  by (simp add: new_container_def)

lemma path_names_simps:
  "path_names [l] = [case strip_bracket l of Some f \<Rightarrow> f | None \<Rightarrow> l]"
  "path_names (k # nxt # rest) = k # path_names (nxt # rest)"
  by (auto simp: path_names_def split: option.splits)

lemma key_names_path: "key_names key = path_names (split_dot key)"
  by (simp add: key_names_def path_names_def Let_def)

lemma names_put_path:
  "put_path c ps v = Inr c' \<Longrightarrow> ps \<noteq> [] \<Longrightarrow>
   set (own_names c') \<subseteq> set (path_names ps) \<union> set (own_names v) \<union> set (own_names c)"
proof (induction c ps v arbitrary: c' rule: put_path.induct)
  case (1 c v)
  then show ?case by simp
next
  case (2 c lastKeyPart v)
  then have "put_last c lastKeyPart v = Inr c'" by simp
  then show ?case using names_put_last [of c lastKeyPart v c'] by (auto simp: path_names_simps)
next
  case (3 c keyPart nxt rest v)
  obtain c1 child where e: "ensure c keyPart (new_container nxt) = Inr (c1, child)"
    and s: "store c1 keyPart (put_path child (nxt # rest) v) = Inr c'"
    using "3.prems"(1) by (auto split: sum.splits)
  obtain child' where ch: "put_path child (nxt # rest) v = Inr child'"
    "set_prop c1 keyPart child' = Inr c'"
    using store_Inr [OF s] by blast
  have ih: "set (own_names child') \<subseteq>
     set (path_names (nxt # rest)) \<union> set (own_names v) \<union> set (own_names child)"
    using "3.IH" [OF e refl ch(1)] by simp
  show ?case
    unfolding path_names_simps
    using ih names_ensure [OF e] names_set_prop [OF ch(2)]
    by (auto simp: names_new_container)
qed

lemma names_put_entry:
  assumes "put_entry inherited out e = Inr out'"
  shows "set (own_names out') \<subseteq> set (key_names (fst e)) \<union> set (own_names out)"
proof -
  have p: "put_path out (split_dot (fst e)) (of_entry_value (snd e)) = Inr out'"
    using assms by (simp add: put_entry_def split: if_splits)
  have "own_names (of_entry_value (snd e)) = []" by (cases "snd e") simp_all
  then show ?thesis
    using names_put_path [OF p split_dot_nonempty] by (simp add: key_names_path)
qed

lemma entries_loop_names:
  "entries_loop inherited out entries = Inr out' \<Longrightarrow>
   set (own_names out') \<subseteq> (\<Union>e \<in> set entries. set (key_names (fst e))) \<union> set (own_names out)"
proof (induction entries arbitrary: out)
  case Nil
  then show ?case by simp
next
  case (Cons e entries)
  obtain t where t: "put_entry inherited out e = Inr t" "entries_loop inherited t entries = Inr out'"
    using Cons.prems by (auto split: sum.splits)
  show ?case
    using Cons.IH [OF t(2)] names_put_entry [OF t(1)] by auto
qed

lemma entries_loop_in_model:
  "entries_loop inherited out entries = Inr out' \<Longrightarrow> \<forall>e \<in> set entries. in_model inherited (fst e)"
proof (induction entries arbitrary: out)
  case Nil
  then show ?case by simp
next
  case (Cons e entries)
  obtain t where t: "put_entry inherited out e = Inr t" "entries_loop inherited t entries = Inr out'"
    using Cons.prems by (auto split: sum.splits)
  have "in_model inherited (fst e)" using t(1) by (simp add: put_entry_def split: if_splits)
  then show ?case using Cons.IH [OF t(2)] by simp
qed

lemma generateFormData_names:
  assumes "generateFormData inherited entries = Inr out"
  shows "\<forall>n \<in> set (own_names out). n \<notin> set prototype_members \<and> n \<notin> set inherited"
proof
  fix n
  assume "n \<in> set (own_names out)"
  then have "n \<in> (\<Union>e \<in> set entries. set (key_names (fst e)))"
    using entries_loop_names [of inherited "Obj []" entries out] assms
    by (auto simp: generateFormData_def)
  then obtain e where "e \<in> set entries" "n \<in> set (key_names (fst e))"
    by blast
  then show "n \<notin> set prototype_members \<and> n \<notin> set inherited"
    using entries_loop_in_model [of inherited "Obj []" entries out] assms
    by (auto simp: generateFormData_def in_model_def)
qed

subsection \<open>Branch points\<close>












subsection \<open>Failure\<close>







subsection \<open>Bracket suffixes\<close>


























subsection \<open>Closed examples\<close>















end
